theory Spec2Isabelle
  imports Complex_Main
begin

section \<open>The Hub of flubber (src/flubber/core/hub.py)\<close>

text \<open>
  The module keeps one Hub per thread in a thread-local slot, owns a pyuv event loop
  (the reactor) and the greenlet (fiber) that drives it, and offers timers, next-tick
  callbacks and calls from other threads. The embedding keeps Python's objects in
  heaps indexed by reference: every reference names an object, an attribute that the
  source sets to \<open>None\<close> is an \<open>option\<close>, and every \<open>raise\<close> is a value
  \<open>Inl e\<close> returned together with the state reached so far.
\<close>

subsection \<open>Exceptions\<close>

text \<open>
  The exception classes the module raises, catches or classifies, the base classes
  above them, and user classes, each derived from a list of bases. \<open>mro\<close> lists a
  class and all the classes above it (in an order that does not matter here, and with
  repetitions); \<open>issubclass\<close> is Python's test against a tuple of classes.
\<close>

datatype exc_type =
    BaseException
  | Exception
  | KeyboardInterrupt
  | SystemExit
  | SystemError
  | GreenletExit
  | RuntimeError
  | ValueError
  | AttributeError
  | KeyError
  | TypeError
  | HandleClosedError
  | UserException string "exc_type list"

fun mro :: "exc_type \<Rightarrow> exc_type list" where
  "mro BaseException = [BaseException]"
| "mro Exception = [Exception, BaseException]"
| "mro KeyboardInterrupt = [KeyboardInterrupt, BaseException]"
| "mro SystemExit = [SystemExit, BaseException]"
| "mro GreenletExit = [GreenletExit, BaseException]"
| "mro SystemError = [SystemError, Exception, BaseException]"
| "mro RuntimeError = [RuntimeError, Exception, BaseException]"
| "mro ValueError = [ValueError, Exception, BaseException]"
| "mro AttributeError = [AttributeError, Exception, BaseException]"
| "mro KeyError = [KeyError, Exception, BaseException]"
| "mro TypeError = [TypeError, Exception, BaseException]"
| "mro HandleClosedError = [HandleClosedError, Exception, BaseException]"
| "mro (UserException name bases) = UserException name bases # concat (map mro bases)"

definition issubclass :: "exc_type \<Rightarrow> exc_type list \<Rightarrow> bool" where
  "issubclass typ classes = (\<exists>c \<in> set classes. c \<in> set (mro typ))"

datatype exn = Exn exc_type string

type_synonym 'a result = "exn + 'a"

definition SYSTEM_ERROR :: "exc_type list" where
  "SYSTEM_ERROR = [KeyboardInterrupt, SystemExit, SystemError]"

definition NOT_ERROR :: "exc_type list" where
  "NOT_ERROR = [GreenletExit, SystemExit]"

subsection \<open>Objects and the state of the process\<close>

type_synonym ref = nat
type_synonym thread_id = nat

text \<open>\<open>partial(func, *args, **kw)\<close>: a function, named by a number, with its bound arguments.\<close>

datatype callable = Partial nat "string list"

text \<open>
  The callback a pyuv handle was given: the waker's \<open>lambda x: None\<close>, the Hub's
  \<open>_tick_cb\<close>, the idle handle's \<open>lambda handle: handle.stop()\<close>, a timer's
  \<open>_timer_cb\<close>, and the closure \<open>_cb\<close> of \<open>call_from_thread\<close>, which holds the
  function and the handle \<open>async\<close>.
\<close>

datatype handle_cb =
    NoCb
  | WakerCb
  | TickCb ref
  | IdleStopCb
  | TimerCb ref
  | ThreadCb callable ref

datatype handle_kind = Async | Prepare | Idle | TimerHandle | SignalChecker

text \<open>
  A pyuv handle. \<open>starts\<close> counts the calls of \<open>start\<close> that armed the handle; it is
  read by no operation.
\<close>

record handle_obj =
  kind :: handle_kind
  owner :: ref
  active :: bool
  closed :: bool
  referenced :: bool
  sent :: bool
  hcallback :: handle_cb
  timeout :: real
  starts :: nat

text \<open>
  A pyuv loop. \<open>loop_thread\<close> is the thread in which the loop was created. The module
  runs a loop only from \<open>_run_loop\<close>, the body of the Hub's greenlet, which belongs to
  the thread that created the Hub, and from \<open>destroy\<close> after its check of the thread's
  binding; so the callbacks of a loop run in that thread and in no other.
\<close>

record loop_obj =
  excepthook :: "ref option"
  loop_thread :: thread_id

record fiber_obj =
  parent :: "ref option"
  switch_out_hook :: "callable option"
  dead :: bool

record timer_obj =
  called :: bool
  cb :: "callable option"
  timer :: "ref option"

record hub_obj =
  greenlet :: ref
  loop :: "ref option"
  threadpool :: "ref option"
  timers :: "ref set option"
  waker :: "ref option"
  signal_checker :: "ref option"
  tick_prepare :: "ref option"
  tick_idle :: "ref option"
  tick_callbacks :: "callable list option"

text \<open>
  The process: \<open>tls\<close> is \<open>_tls.hub\<close> of each thread (\<open>None\<close> when the attribute is
  absent), \<open>current\<close> is \<open>get_current()\<close> of each thread, the heaps hold the objects,
  \<open>next_ref\<close> is the next unused reference, \<open>stderr\<close> is what
  \<open>traceback.print_exception\<close> wrote, and \<open>thrown\<close> lists the exceptions thrown into
  fibers with \<open>greenlet.throw\<close>.
\<close>

record world =
  tls :: "thread_id \<Rightarrow> ref option"
  current :: "thread_id \<Rightarrow> ref"
  hub_heap :: "ref \<Rightarrow> hub_obj"
  loop_heap :: "ref \<Rightarrow> loop_obj"
  handle_heap :: "ref \<Rightarrow> handle_obj"
  timer_heap :: "ref \<Rightarrow> timer_obj"
  fiber_heap :: "ref \<Rightarrow> fiber_obj"
  next_ref :: ref
  stderr :: "exn list"
  thrown :: "(ref \<times> exn) list"

text \<open>
  What user code does when called: it may change the state, and returns or raises.
  \<open>user_code\<close> is the behaviour of the callables in one thread; an \<open>env\<close> gives it for
  every thread, so that a callable is always run in the thread of the code that calls it.
\<close>

type_synonym user_code = "callable \<Rightarrow> world \<Rightarrow> unit result \<times> world"

type_synonym env = "thread_id \<Rightarrow> user_code"

subsection \<open>The reactor's handles (pyuv)\<close>

text \<open>
  The operations of pyuv handles that the Hub calls. A closed handle refuses every
  operation with \<open>HandleClosedError\<close> (which is why \<open>_cleanup_loop\<close> tests
  \<open>handle.closed\<close> first); \<open>close\<close> also leaves the handle inactive.
\<close>

definition new_handle :: "handle_kind \<Rightarrow> ref \<Rightarrow> handle_cb \<Rightarrow> handle_obj" where
  "new_handle k l c =
     \<lparr>kind = k, owner = l, active = False, closed = False, referenced = True,
      sent = False, hcallback = c, timeout = 0, starts = 0\<rparr>"

definition upd_handle :: "ref \<Rightarrow> (handle_obj \<Rightarrow> handle_obj) \<Rightarrow> world \<Rightarrow> world" where
  "upd_handle a f w = w\<lparr>handle_heap := (handle_heap w)(a := f (handle_heap w a))\<rparr>"

definition upd_hub :: "ref \<Rightarrow> (hub_obj \<Rightarrow> hub_obj) \<Rightarrow> world \<Rightarrow> world" where
  "upd_hub h f w = w\<lparr>hub_heap := (hub_heap w)(h := f (hub_heap w h))\<rparr>"

definition upd_timer :: "ref \<Rightarrow> (timer_obj \<Rightarrow> timer_obj) \<Rightarrow> world \<Rightarrow> world" where
  "upd_timer t f w = w\<lparr>timer_heap := (timer_heap w)(t := f (timer_heap w t))\<rparr>"

definition upd_fiber :: "ref \<Rightarrow> (fiber_obj \<Rightarrow> fiber_obj) \<Rightarrow> world \<Rightarrow> world" where
  "upd_fiber g f w = w\<lparr>fiber_heap := (fiber_heap w)(g := f (fiber_heap w g))\<rparr>"

definition handle_closed_error :: exn where
  "handle_closed_error = Exn HandleClosedError ''Handle is closed''"

definition handle_close :: "ref \<Rightarrow> world \<Rightarrow> unit result \<times> world" where
  "handle_close a w =
     (if closed (handle_heap w a) then (Inl handle_closed_error, w)
      else (Inr (), upd_handle a (\<lambda>x. x\<lparr>closed := True, active := False\<rparr>) w))"

definition handle_start :: "ref \<Rightarrow> handle_cb \<Rightarrow> world \<Rightarrow> unit result \<times> world" where
  "handle_start a c w =
     (if closed (handle_heap w a) then (Inl handle_closed_error, w)
      else (Inr (), upd_handle a (\<lambda>x. x\<lparr>active := True, hcallback := c, starts := Suc (starts x)\<rparr>) w))"

definition handle_stop :: "ref \<Rightarrow> world \<Rightarrow> unit result \<times> world" where
  "handle_stop a w =
     (if closed (handle_heap w a) then (Inl handle_closed_error, w)
      else (Inr (), upd_handle a (\<lambda>x. x\<lparr>active := False\<rparr>) w))"

definition handle_send :: "ref \<Rightarrow> world \<Rightarrow> unit result \<times> world" where
  "handle_send a w =
     (if closed (handle_heap w a) then (Inl handle_closed_error, w)
      else (Inr (), upd_handle a (\<lambda>x. x\<lparr>sent := True\<rparr>) w))"

text \<open>
  \<open>loop.walk(cb)\<close> with the \<open>cb\<close> of \<open>_cleanup_loop\<close>: every handle of the loop that
  is not closed is closed.
\<close>

definition walk_close :: "ref \<Rightarrow> world \<Rightarrow> world" where
  "walk_close l w =
     w\<lparr>handle_heap := (\<lambda>a. let x = handle_heap w a in
          if owner x = l \<and> \<not> closed x then x\<lparr>closed := True, active := False\<rparr> else x)\<rparr>"

subsection \<open>get_hub\<close>

definition none_attribute_error :: "string \<Rightarrow> exn" where
  "none_attribute_error a = Exn AttributeError (''NoneType object has no attribute '' @ a)"

definition get_hub :: "thread_id \<Rightarrow> world \<Rightarrow> ref result" where
  "get_hub th w =
     (case tls w th of
        None \<Rightarrow> Inl (Exn RuntimeError ''there is no hub created in the current thread'')
      | Some h \<Rightarrow> Inr h)"

subsection \<open>Hub.__init__ and Hub.destroy\<close>

text \<open>
  \<open>Hub()\<close> called in thread \<open>th\<close>. The new objects take the next eight references:
  the Hub, its greenlet (whose parent is the fiber that creates it and which has no
  \<open>switch_out\<close> attribute), the loop, the thread pool, the waker's async handle (which
  is unreferenced), the signal checker, and the prepare and idle handles.
\<close>

definition Hub_init :: "thread_id \<Rightarrow> world \<Rightarrow> ref result \<times> world" where
  "Hub_init th w =
     (if tls w th \<noteq> None
      then (Inl (Exn RuntimeError ''cannot instantiate more than one Hub per thread''), w)
      else
        let n = next_ref w;
            self = n; g = n + 1; l = n + 2; tp = n + 3;
            wk = n + 4; sc = n + 5; pr = n + 6; idl = n + 7
        in (Inr self,
            w\<lparr>tls := (tls w)(th := Some self),
              fiber_heap := (fiber_heap w)
                (g := \<lparr>parent = Some (current w th), switch_out_hook = None, dead = False\<rparr>),
              loop_heap := (loop_heap w)(l := \<lparr>excepthook = Some self, loop_thread = th\<rparr>),
              handle_heap := (handle_heap w)
                (wk := (new_handle Async l WakerCb)\<lparr>active := True, referenced := False\<rparr>,
                 sc := new_handle SignalChecker l NoCb,
                 pr := new_handle Prepare l NoCb,
                 idl := new_handle Idle l NoCb),
              hub_heap := (hub_heap w)
                (self := \<lparr>greenlet = g, loop = Some l, threadpool = Some tp,
                          timers = Some {}, waker = Some wk, signal_checker = Some sc,
                          tick_prepare = Some pr, tick_idle = Some idl,
                          tick_callbacks = Some []\<rparr>),
              next_ref := n + 8\<rparr>))"

text \<open>
  \<open>_cleanup_loop\<close>: close every open handle of the loop, then run the loop, which
  returns at once since no handle is left.
\<close>

definition cleanup_loop :: "ref \<Rightarrow> world \<Rightarrow> unit result \<times> world" where
  "cleanup_loop self w =
     (case loop (hub_heap w self) of
        None \<Rightarrow> (Inl (none_attribute_error ''walk''), w)
      | Some l \<Rightarrow> (Inr (), walk_close l w))"

definition destroy :: "thread_id \<Rightarrow> ref \<Rightarrow> world \<Rightarrow> unit result \<times> world" where
  "destroy th self w =
     (case tls w th of
        None \<Rightarrow> (Inl (Exn RuntimeError ''hub is already destroyed''), w)
      | Some hub \<Rightarrow>
          if hub \<noteq> self
          then (Inl (Exn RuntimeError
                  ''destroy() can only be called from the same thread were the hub was created''), w)
          else
            let w1 = w\<lparr>tls := (tls w)(th := None)\<rparr> in
            (case cleanup_loop self w1 of
               (Inl e, w2) \<Rightarrow> (Inl e, w2)
             | (Inr u, w2) \<Rightarrow>
                 (case loop (hub_heap w2 self) of
                    None \<Rightarrow> (Inl (none_attribute_error ''excepthook''), w2)
                  | Some l \<Rightarrow>
                      (Inr (),
                       upd_hub self
                         (\<lambda>x. x\<lparr>loop := None, threadpool := None, timers := None,
                                waker := None, signal_checker := None,
                                tick_prepare := None, tick_idle := None,
                                tick_callbacks := None\<rparr>)
                         (w2\<lparr>loop_heap := (loop_heap w2)(l := (loop_heap w2 l)\<lparr>excepthook := None\<rparr>)\<rparr>)))))"

subsection \<open>Fibers\<close>

text \<open>
  Modelled from the spec: the fiber primitive. \<open>flubber.core._greenlet\<close> is not among
  the sources; the specification lists its contract as create, switch, current, a
  settable parent link that fails if it would create a cycle, and an optional hook
  invoked before a fiber is switched away from. Assigning \<open>self.parent = nparent\<close>
  walks the chain of parents from \<open>nparent\<close> and raises \<open>ValueError\<close> when it meets
  \<open>self\<close>; the walk is a loop, so it is a partial function, and \<open>None\<close> stands for
  a walk that never ends.
\<close>

partial_function (option) chain_contains :: "(ref \<Rightarrow> fiber_obj) \<Rightarrow> ref option \<Rightarrow> ref \<Rightarrow> bool option" where
  "chain_contains fh p self =
     (case p of
        None \<Rightarrow> Some False
      | Some q \<Rightarrow> if q = self then Some True else chain_contains fh (parent (fh q)) self)"

definition set_parent :: "ref \<Rightarrow> ref \<Rightarrow> world \<Rightarrow> (unit result \<times> world) option" where
  "set_parent self nparent w =
     (case chain_contains (fiber_heap w) (Some nparent) self of
        None \<Rightarrow> None
      | Some cyclic \<Rightarrow>
          if cyclic then Some (Inl (Exn ValueError ''cyclic parent chain''), w)
          else Some (Inr (), upd_fiber self (\<lambda>x. x\<lparr>parent := Some nparent\<rparr>) w))"

text \<open>
  Modelled from the spec: \<open>g.switch()\<close> makes \<open>g\<close> the running fiber of the thread, and
  \<open>g.throw(typ, value)\<close> does so and raises the exception there. The state is the one at
  the moment control is handed over.
\<close>

definition greenlet_switch :: "thread_id \<Rightarrow> ref \<Rightarrow> world \<Rightarrow> world" where
  "greenlet_switch th g w = w\<lparr>current := (current w)(th := g)\<rparr>"

definition greenlet_throw :: "thread_id \<Rightarrow> ref \<Rightarrow> exn \<Rightarrow> world \<Rightarrow> world" where
  "greenlet_throw th g e w = w\<lparr>current := (current w)(th := g), thrown := thrown w @ [(g, e)]\<rparr>"

subsection \<open>Hub.switch and Hub.switch_out\<close>

text \<open>
  \<open>switch\<close> reads \<open>switch_out\<close> from the current greenlet, not from the Hub. The
  \<open>try\<close> block swallows \<open>ValueError\<close> only.
\<close>

definition switch :: "env \<Rightarrow> thread_id \<Rightarrow> ref \<Rightarrow> world \<Rightarrow> (unit result \<times> world) option" where
  "switch env th self w =
     (let cur = current w th;
          hooked = (case switch_out_hook (fiber_heap w cur) of
                      None \<Rightarrow> (Inr (), w)
                    | Some f \<Rightarrow> env th f w)
      in case hooked of
           (Inl e, w1) \<Rightarrow> Some (Inl e, w1)
         | (Inr u, w1) \<Rightarrow>
             (case (if parent (fiber_heap w1 (greenlet (hub_heap w1 self))) \<noteq> Some cur
                    then set_parent cur (greenlet (hub_heap w1 self)) w1
                    else Some (Inr (), w1)) of
                None \<Rightarrow> None
              | Some (Inr u, w2) \<Rightarrow>
                  Some (Inr (), greenlet_switch th (greenlet (hub_heap w2 self)) w2)
              | Some (Inl (Exn typ value), w2) \<Rightarrow>
                  if issubclass typ [ValueError]
                  then Some (Inr (), greenlet_switch th (greenlet (hub_heap w2 self)) w2)
                  else Some (Inl (Exn typ value), w2)))"

definition switch_out :: "ref \<Rightarrow> world \<Rightarrow> unit result \<times> world" where
  "switch_out self w = (Inl (Exn RuntimeError ''Cannot switch to MAINLOOP from MAINLOOP''), w)"

subsection \<open>Hub.next_tick and Hub._tick_cb\<close>

definition next_tick :: "ref \<Rightarrow> callable \<Rightarrow> world \<Rightarrow> unit result \<times> world" where
  "next_tick self f w =
     (case tick_callbacks (hub_heap w self) of
        None \<Rightarrow> (Inl (none_attribute_error ''append''), w)
      | Some q \<Rightarrow>
          let w1 = upd_hub self (\<lambda>x. x\<lparr>tick_callbacks := Some (q @ [f])\<rparr>) w in
          (case tick_prepare (hub_heap w1 self) of
             None \<Rightarrow> (Inl (none_attribute_error ''active''), w1)
           | Some p \<Rightarrow>
               if \<not> active (handle_heap w1 p)
               then
                 (case handle_start p (TickCb self) w1 of
                    (Inl e, w2) \<Rightarrow> (Inl e, w2)
                  | (Inr u, w2) \<Rightarrow>
                      (case tick_idle (hub_heap w2 self) of
                         None \<Rightarrow> (Inl (none_attribute_error ''start''), w2)
                       | Some i \<Rightarrow> handle_start i IdleStopCb w2))
               else (Inr (), w1)))"

text \<open>
  \<open>for f in queue: f()\<close>. The third component lists the callbacks that were called,
  in the order of the calls; an exception leaves the loop.
\<close>

fun run_callbacks :: "user_code \<Rightarrow> callable list \<Rightarrow> world \<Rightarrow> unit result \<times> world \<times> callable list" where
  "run_callbacks env [] w = (Inr (), w, [])"
| "run_callbacks env (f # fs) w =
     (case env f w of
        (Inl e, w1) \<Rightarrow> (Inl e, w1, [f])
      | (Inr u, w1) \<Rightarrow>
          (case run_callbacks env fs w1 of (r, w2, called_fs) \<Rightarrow> (r, w2, f # called_fs)))"

definition tick_cb :: "env \<Rightarrow> thread_id \<Rightarrow> ref \<Rightarrow> world \<Rightarrow> unit result \<times> world \<times> callable list" where
  "tick_cb env th self w =
     (case tick_prepare (hub_heap w self) of
        None \<Rightarrow> (Inl (none_attribute_error ''stop''), w, [])
      | Some p \<Rightarrow>
          (case handle_stop p w of
             (Inl e, w1) \<Rightarrow> (Inl e, w1, [])
           | (Inr u, w1) \<Rightarrow>
               (case tick_idle (hub_heap w1 self) of
                  None \<Rightarrow> (Inl (none_attribute_error ''stop''), w1, [])
                | Some i \<Rightarrow>
                    (case handle_stop i w1 of
                       (Inl e, w2) \<Rightarrow> (Inl e, w2, [])
                     | (Inr u, w2) \<Rightarrow>
                         let queue = tick_callbacks (hub_heap w2 self);
                             w3 = upd_hub self (\<lambda>x. x\<lparr>tick_callbacks := Some []\<rparr>) w2
                         in (case queue of
                               None \<Rightarrow> (Inl (Exn TypeError ''NoneType object is not iterable''), w3, [])
                             | Some q \<Rightarrow> run_callbacks (env th) q w3)))))"

text \<open>\<open>next_tick\<close> called once for each callback of a list, one after the other.\<close>

fun next_tick_all :: "ref \<Rightarrow> callable list \<Rightarrow> world \<Rightarrow> unit result \<times> world" where
  "next_tick_all self [] w = (Inr (), w)"
| "next_tick_all self (f # fs) w =
     (case next_tick self f w of
        (Inl e, w1) \<Rightarrow> (Inl e, w1)
      | (Inr u, w1) \<Rightarrow> next_tick_all self fs w1)"

subsection \<open>_Timer\<close>

definition timers_remove :: "ref \<Rightarrow> ref \<Rightarrow> world \<Rightarrow> unit result \<times> world" where
  "timers_remove hub self w =
     (case timers (hub_heap w hub) of
        None \<Rightarrow> (Inl (none_attribute_error ''remove''), w)
      | Some S \<Rightarrow>
          if self \<in> S then (Inr (), upd_hub hub (\<lambda>x. x\<lparr>timers := Some (S - {self})\<rparr>) w)
          else (Inl (Exn KeyError ''timer''), w))"

text \<open>
  \<open>_Timer.__init__\<close>; \<open>call_later\<close> is its only caller. The timer and its pyuv handle
  take the next two references; \<open>start\<close> arms the handle with the delay \<open>seconds\<close>,
  and refuses a negative delay with \<open>ValueError\<close>, by which time the timer is already
  in the Hub's set.
\<close>

definition Timer_init :: "ref \<Rightarrow> real \<Rightarrow> callable \<Rightarrow> world \<Rightarrow> ref result \<times> world" where
  "Timer_init hub seconds f w =
     (let self = next_ref w;
          w1 = (upd_timer self (\<lambda>x. \<lparr>called = False, cb = Some f, timer = None\<rparr>) w)
                 \<lparr>next_ref := Suc self\<rparr>
      in case timers (hub_heap w1 hub) of
           None \<Rightarrow> (Inl (none_attribute_error ''add''), w1)
         | Some S \<Rightarrow>
             let w2 = upd_hub hub (\<lambda>x. x\<lparr>timers := Some (insert self S)\<rparr>) w1 in
             (case loop (hub_heap w2 hub) of
                None \<Rightarrow> (Inl (Exn TypeError ''loop must be a Loop''), w2)
              | Some l \<Rightarrow>
                  let a = next_ref w2;
                      w3 = (upd_handle a (\<lambda>x. new_handle TimerHandle l NoCb) w2)
                             \<lparr>next_ref := Suc a\<rparr>;
                      w4 = upd_timer self (\<lambda>x. x\<lparr>timer := Some a\<rparr>) w3
                  in if seconds < 0
                     then (Inl (Exn ValueError ''a value of zero or higher is required''), w4)
                     else
                       (case handle_start a (TimerCb self) w4 of
                          (Inl e, w5) \<Rightarrow> (Inl e, w5)
                        | (Inr u, w5) \<Rightarrow>
                            (Inr self, upd_handle a (\<lambda>x. x\<lparr>timeout := seconds\<rparr>) w5))))"

definition call_later :: "ref \<Rightarrow> real \<Rightarrow> callable \<Rightarrow> world \<Rightarrow> ref result \<times> world" where
  "call_later self seconds f w = Timer_init self seconds f w"

text \<open>
  The \<open>finally\<close> block of \<open>_timer_cb\<close>; an exception raised in it replaces the
  outcome of the \<open>try\<close> block.
\<close>

definition timer_cleanup :: "thread_id \<Rightarrow> ref \<Rightarrow> world \<Rightarrow> unit result \<times> world" where
  "timer_cleanup th self w =
     (let w1 = upd_timer self (\<lambda>x. x\<lparr>cb := None\<rparr>) w in
      case timer (timer_heap w1 self) of
        None \<Rightarrow> (Inl (none_attribute_error ''close''), w1)
      | Some a \<Rightarrow>
          (case handle_close a w1 of
             (Inl e, w2) \<Rightarrow> (Inl e, w2)
           | (Inr u, w2) \<Rightarrow>
               let w3 = upd_timer self (\<lambda>x. x\<lparr>timer := None\<rparr>) w2 in
               (case get_hub th w3 of
                  Inl e \<Rightarrow> (Inl e, w3)
                | Inr hub \<Rightarrow> timers_remove hub self w3)))"

definition timer_cb :: "env \<Rightarrow> thread_id \<Rightarrow> ref \<Rightarrow> world \<Rightarrow> unit result \<times> world \<times> callable list" where
  "timer_cb env th self w =
     (if \<not> called (timer_heap w self)
      then
        let w1 = upd_timer self (\<lambda>x. x\<lparr>called := True\<rparr>) w;
            tried = (case cb (timer_heap w1 self) of
                       None \<Rightarrow> ((Inl (Exn TypeError ''NoneType object is not callable''), w1), [])
                     | Some f \<Rightarrow> (env th f w1, [f]))
        in case tried of
             ((r, w2), called_fs) \<Rightarrow>
               (case timer_cleanup th self w2 of
                  (Inl e, w3) \<Rightarrow> (Inl e, w3, called_fs)
                | (Inr u, w3) \<Rightarrow> (r, w3, called_fs))
      else (Inr (), w, []))"

definition cancel :: "thread_id \<Rightarrow> ref \<Rightarrow> world \<Rightarrow> unit result \<times> world" where
  "cancel th self w =
     (if \<not> called (timer_heap w self)
      then
        let w1 = upd_timer self (\<lambda>x. x\<lparr>called := True\<rparr>) w in
        (case timer (timer_heap w1 self) of
           None \<Rightarrow> (Inl (none_attribute_error ''close''), w1)
         | Some a \<Rightarrow>
             (case handle_close a w1 of
                (Inl e, w2) \<Rightarrow> (Inl e, w2)
              | (Inr u, w2) \<Rightarrow>
                  let w3 = upd_timer self (\<lambda>x. x\<lparr>timer := None\<rparr>) w2 in
                  (case get_hub th w3 of
                     Inl e \<Rightarrow> (Inl e, w3)
                   | Inr hub \<Rightarrow> timers_remove hub self w3)))
      else (Inr (), w))"

text \<open>
  A timer on which the reactor's fire callback and \<open>cancel\<close> are called in some
  order; the second component lists the calls of the timer's callback.
\<close>

datatype timer_event = Fire | Cancel

fun timer_events :: "env \<Rightarrow> thread_id \<Rightarrow> ref \<Rightarrow> timer_event list \<Rightarrow> world \<Rightarrow> world \<times> callable list" where
  "timer_events env th t [] w = (w, [])"
| "timer_events env th t (Fire # evs) w =
     (case timer_cb env th t w of
        (r, w1, called_fs) \<Rightarrow>
          (case timer_events env th t evs w1 of (w2, later) \<Rightarrow> (w2, called_fs @ later)))"
| "timer_events env th t (Cancel # evs) w =
     (case cancel th t w of (r, w1) \<Rightarrow> timer_events env th t evs w1)"

subsection \<open>Hub.call_from_thread\<close>

text \<open>
  The new async handle takes the next reference; its callback is the closure \<open>_cb\<close>,
  which holds \<open>func\<close> and the handle itself. \<open>call_from_thread\<close> calls nothing but
  pyuv, whatever the thread it is called in: it is given no way to run \<open>func\<close>. The
  closure \<open>_cb\<close> runs \<open>func\<close> in the thread \<open>th\<close> in which the reactor calls it.
\<close>

definition call_from_thread :: "ref \<Rightarrow> callable \<Rightarrow> world \<Rightarrow> unit result \<times> world" where
  "call_from_thread self func w =
     (case loop (hub_heap w self) of
        None \<Rightarrow> (Inl (Exn TypeError ''loop must be a Loop''), w)
      | Some l \<Rightarrow>
          let a = next_ref w;
              w1 = (upd_handle a (\<lambda>x. (new_handle Async l (ThreadCb func a))\<lparr>active := True\<rparr>) w)
                     \<lparr>next_ref := Suc a\<rparr>
          in handle_send a w1)"

definition call_from_thread_cb :: "env \<Rightarrow> thread_id \<Rightarrow> callable \<Rightarrow> ref \<Rightarrow> world \<Rightarrow> unit result \<times> world \<times> callable list" where
  "call_from_thread_cb env th func a w =
     (case env th func w of
        (r, w1) \<Rightarrow>
          (case handle_close a w1 of
             (Inl e, w2) \<Rightarrow> (Inl e, w2, [func])
           | (Inr u, w2) \<Rightarrow> (r, w2, [func])))"

subsection \<open>Hub._handle_error\<close>

text \<open>
  The second branch evaluates \<open>self.parent\<close> before it can call \<open>next_tick\<close>; a Hub
  has a \<open>greenlet\<close> attribute and no \<open>parent\<close> attribute, so the lookup raises
  \<open>AttributeError\<close>.
\<close>

definition handle_error :: "thread_id \<Rightarrow> ref \<Rightarrow> exc_type \<Rightarrow> string \<Rightarrow> world \<Rightarrow> unit result \<times> world" where
  "handle_error th self typ value w =
     (let w1 = (if \<not> issubclass typ NOT_ERROR then w\<lparr>stderr := stderr w @ [Exn typ value]\<rparr> else w)
      in if issubclass typ SYSTEM_ERROR
         then
           let cur = current w1 th in
           if cur = greenlet (hub_heap w1 self)
           then
             (case parent (fiber_heap w1 (greenlet (hub_heap w1 self))) of
                None \<Rightarrow> (Inl (none_attribute_error ''throw''), w1)
              | Some p \<Rightarrow> (Inr (), greenlet_throw th p (Exn typ value) w1))
           else (Inl (Exn AttributeError ''Hub object has no attribute parent''), w1)
         else (Inr (), w1))"

subsection \<open>The reactor\<close>

text \<open>
  The reactor (pyuv) running in thread \<open>th\<close> calls the callback of a handle of its
  own loop that is active and not closed, and of an async handle only after a
  \<open>send\<close>; the handles of a loop that runs in another thread are not its business.
  A timer started with repeat \<open>0.0\<close> stops before its callback runs. The third
  component lists the user callbacks called.
\<close>

definition reactor_fire :: "env \<Rightarrow> thread_id \<Rightarrow> ref \<Rightarrow> world \<Rightarrow> unit result \<times> world \<times> callable list" where
  "reactor_fire env th a w =
     (let x = handle_heap w a in
      if closed x \<or> \<not> active x \<or> loop_thread (loop_heap w (owner x)) \<noteq> th
      then (Inr (), w, [])
      else
        (case hcallback x of
           NoCb \<Rightarrow> (Inr (), w, [])
         | WakerCb \<Rightarrow> (Inr (), upd_handle a (\<lambda>x. x\<lparr>sent := False\<rparr>) w, [])
         | TickCb hub \<Rightarrow> tick_cb env th hub w
         | IdleStopCb \<Rightarrow> (case handle_stop a w of (r, w1) \<Rightarrow> (r, w1, []))
         | TimerCb t \<Rightarrow> timer_cb env th t (upd_handle a (\<lambda>x. x\<lparr>active := False\<rparr>) w)
         | ThreadCb func b \<Rightarrow>
             if sent x then call_from_thread_cb env th func b (upd_handle a (\<lambda>x. x\<lparr>sent := False\<rparr>) w)
             else (Inr (), w, [])))"

subsection \<open>A process with two threads and nothing else\<close>

definition world0 :: world where
  "world0 =
     \<lparr>tls = (\<lambda>th. None), current = (\<lambda>th. th),
      hub_heap = (\<lambda>r. \<lparr>greenlet = 0, loop = None, threadpool = None, timers = None,
                       waker = None, signal_checker = None, tick_prepare = None,
                       tick_idle = None, tick_callbacks = None\<rparr>),
      loop_heap = (\<lambda>r. \<lparr>excepthook = None, loop_thread = 0\<rparr>),
      handle_heap = (\<lambda>r. new_handle Async 0 NoCb),
      timer_heap = (\<lambda>r. \<lparr>called = False, cb = None, timer = None\<rparr>),
      fiber_heap = (\<lambda>r. \<lparr>parent = None, switch_out_hook = None, dead = False\<rparr>),
      next_ref = 2, stderr = [], thrown = []\<rparr>"

text \<open>
  \<open>world1\<close>: thread 0 has created a Hub (reference 2, greenlet 3, loop 4, prepare
  handle 8, idle handle 9). \<open>world2\<close>: thread 1 has then created a second Hub
  (reference 10). \<open>world1_destroyed\<close>: thread 0 has destroyed its Hub again.
\<close>

definition world1 :: world where
  "world1 = snd (Hub_init 0 world0)"

definition world2 :: world where
  "world2 = snd (Hub_init 1 world1)"

definition world1_destroyed :: world where
  "world1_destroyed = snd (destroy 0 2 world1)"

text \<open>
  \<open>world1_in_hub\<close>: as \<open>world1\<close>, with the Hub's greenlet running in thread 0, as it
  does whenever the reactor calls back.
\<close>

definition world1_in_hub :: world where
  "world1_in_hub = world1\<lparr>current := (current world1)(0 := 3)\<rparr>"

subsection \<open>The tick queue of a live Hub\<close>

text \<open>
  The Hub still has its prepare handle \<open>p\<close> and its idle handle \<open>i\<close>, which are two
  handles, and neither is closed.
\<close>

definition tick_state :: "ref \<Rightarrow> ref \<Rightarrow> ref \<Rightarrow> world \<Rightarrow> bool" where
  "tick_state self p i w =
     (tick_prepare (hub_heap w self) = Some p \<and> tick_idle (hub_heap w self) = Some i \<and>
      p \<noteq> i \<and> \<not> closed (handle_heap w p) \<and> \<not> closed (handle_heap w i))"

text \<open>
  The state after the first three statements of \<open>_tick_cb\<close>: both handles stopped and
  the queue replaced by an empty one.
\<close>

definition flush_start :: "ref \<Rightarrow> ref \<Rightarrow> ref \<Rightarrow> world \<Rightarrow> world" where
  "flush_start self p i w =
     upd_hub self (\<lambda>x. x\<lparr>tick_callbacks := Some []\<rparr>)
       (upd_handle i (\<lambda>x. x\<lparr>active := False\<rparr>)
          (upd_handle p (\<lambda>x. x\<lparr>active := False\<rparr>) w))"

text \<open>
  The state after the callbacks of a list were called one after the other, each in the
  state its predecessor left, whether it returned or raised.
\<close>

definition state_after :: "user_code \<Rightarrow> callable list \<Rightarrow> world \<Rightarrow> world" where
  "state_after code fs w = fold (\<lambda>f v. snd (code f v)) fs w"

text \<open>
  User code for the examples: in \<open>env_raise\<close> the callback \<open>Partial 1 []\<close> raises
  \<open>ValueError\<close>, in \<open>env_enqueue\<close> it calls \<open>next_tick\<close> on Hub 2 with the callback
  \<open>Partial 3 []\<close>; every other callback returns at once. \<open>world1_queued\<close> is
  \<open>world1\<close> after \<open>next_tick\<close> was called with \<open>Partial 1 []\<close> and then with
  \<open>Partial 2 []\<close>.
\<close>

definition env_raise :: env where
  "env_raise th f w =
     (if f = Partial 1 [] then (Inl (Exn ValueError ''boom''), w) else (Inr (), w))"

definition env_enqueue :: env where
  "env_enqueue th f w =
     (if f = Partial 1 [] then next_tick 2 (Partial 3 []) w else (Inr (), w))"

definition world1_queued :: world where
  "world1_queued = snd (next_tick_all 2 [Partial 1 [], Partial 2 []] world1)"

subsection \<open>A timer for the examples\<close>

text \<open>
  \<open>world1_timer\<close>: in \<open>world1\<close>, \<open>call_later(0.01, ...)\<close> was called on Hub 2 with the
  callback \<open>Partial 1 []\<close>; the timer is reference 10 and its handle reference 11.
  \<open>world1_canceled\<close>: that timer was then canceled in thread 0. In \<open>env_cancel\<close> the
  callback \<open>Partial 1 []\<close> cancels timer 10, the timer it belongs to, in the thread
  it runs in.
\<close>

definition world1_timer :: world where
  "world1_timer = snd (call_later 2 0.01 (Partial 1 []) world1)"

definition world1_canceled :: world where
  "world1_canceled = snd (cancel 0 10 world1_timer)"

definition env_cancel :: env where
  "env_cancel th f w = (if f = Partial 1 [] then cancel th 10 w else (Inr (), w))"

subsection \<open>The tree of parent links\<close>

text \<open>
  \<open>parent_rel\<close> holds the pairs (parent, child) of the parent links. The fiber
  primitive keeps every chain of parents finite, which is the well-foundedness of this
  relation. Assigning \<open>c.parent = n\<close> would create a cycle when, with the new link in
  place, some fiber is its own ancestor.
\<close>

definition parent_rel :: "(ref \<Rightarrow> fiber_obj) \<Rightarrow> (ref \<times> ref) set" where
  "parent_rel fh = {(p, c). parent (fh c) = Some p}"

definition creates_cycle :: "(ref \<Rightarrow> fiber_obj) \<Rightarrow> ref \<Rightarrow> ref \<Rightarrow> bool" where
  "creates_cycle fh c n =
     (\<exists>x. (x, x) \<in> (parent_rel (fh(c := (fh c)\<lparr>parent := Some n\<rparr>)))\<^sup>+)"

text \<open>
  \<open>world1_task\<close>: as \<open>world1\<close>, with a fiber 20 running in thread 0 whose parent is
  the main fiber 0 and whose \<open>switch_out\<close> hook is \<open>Partial 2 []\<close>.
  \<open>world1_nested\<close>: as \<open>world1\<close>, with the main fiber 0 running, but the Hub's
  greenlet 3 is a child of fiber 20, which is a child of fiber 0.
\<close>

definition world1_task :: world where
  "world1_task =
     world1\<lparr>current := (current world1)(0 := 20),
            fiber_heap := (fiber_heap world1)
              (20 := \<lparr>parent = Some 0, switch_out_hook = Some (Partial 2 []), dead = False\<rparr>)\<rparr>"

definition world1_nested :: world where
  "world1_nested =
     world1\<lparr>fiber_heap := (fiber_heap world1)
              (3 := \<lparr>parent = Some 20, switch_out_hook = None, dead = False\<rparr>,
               20 := \<lparr>parent = Some 0, switch_out_hook = None, dead = False\<rparr>)\<rparr>"

section \<open>Theorems\<close>

subsection \<open>The example states\<close>

lemma world1_fields:
  "tls world1 = (\<lambda>th. None)(0 := Some 2)"
  "current world1 = (\<lambda>th. th)"
  "next_ref world1 = 10"
  "hub_heap world1 2 = \<lparr>greenlet = 3, loop = Some 4, threadpool = Some 5,
                          timers = Some {}, waker = Some 6, signal_checker = Some 7,
                          tick_prepare = Some 8, tick_idle = Some 9,
                          tick_callbacks = Some []\<rparr>"
  "fiber_heap world1 3 = \<lparr>parent = Some 0, switch_out_hook = None, dead = False\<rparr>"
  "fiber_heap world1 0 = \<lparr>parent = None, switch_out_hook = None, dead = False\<rparr>"
  "handle_heap world1 8 = new_handle Prepare 4 NoCb"
  "handle_heap world1 9 = new_handle Idle 4 NoCb"
  "stderr world1 = []"
  "thrown world1 = []"
  by (simp_all add: world1_def Hub_init_def world0_def Let_def)

lemma Hub_init_world0: "Hub_init 0 world0 = (Inr 2, world1)"
  by (simp add: world1_def Hub_init_def world0_def Let_def)

lemma world2_fields:
  "tls world2 = (\<lambda>th. None)(0 := Some 2, 1 := Some 10)"
  "hub_heap world2 2 = hub_heap world1 2"
  "handle_heap world2 8 = handle_heap world1 8"
  "handle_heap world2 9 = handle_heap world1 9"
  by (simp_all add: world2_def Hub_init_def world1_fields Let_def)

lemma destroy_world1: "destroy 0 2 world1 = (Inr (), world1_destroyed)"
  by (simp add: world1_destroyed_def destroy_def world1_fields cleanup_loop_def
      walk_close_def upd_hub_def Let_def)

lemma world1_destroyed_fields:
  "next_ref world1_destroyed = 10"
  "tls world1_destroyed = (\<lambda>th. None)"
  "loop (hub_heap world1_destroyed 2) = None"
  "closed (handle_heap world1_destroyed 8)"
  by (simp_all add: world1_destroyed_def destroy_def world1_fields cleanup_loop_def
      walk_close_def upd_hub_def Let_def new_handle_def)

subsection \<open>The thread-local binding\<close>

lemma get_hub_bound: "tls w th = Some h \<Longrightarrow> get_hub th w = Inr h"
  by (simp add: get_hub_def)

lemma get_hub_unbound:
  "tls w th = None \<Longrightarrow>
   get_hub th w = Inl (Exn RuntimeError ''there is no hub created in the current thread'')"
  by (simp add: get_hub_def)

lemma Hub_init_fresh:
  assumes "tls w th = None"
  shows "fst (Hub_init th w) = Inr (next_ref w)"
    and "tls (snd (Hub_init th w)) = (tls w)(th := Some (next_ref w))"
  using assms by (simp_all add: Hub_init_def Let_def)

lemma destroy_ok_tls:
  assumes "destroy th self w = (Inr u, w')"
  shows "tls w th = Some self" and "tls w' = (tls w)(th := None)"
  using assms
  by (auto simp: destroy_def cleanup_loop_def upd_hub_def walk_close_def Let_def
      split: option.splits if_splits)

text \<open>
  C1. In every thread, \<open>Hub()\<close> fails with \<open>RuntimeError\<close> ("cannot instantiate more
  than one Hub per thread") while a Hub is bound to the thread, and leaves the whole
  state, the binding included, as it was. After a \<open>destroy()\<close> that returned, the
  binding of the thread is removed (those of the other threads are untouched), and
  \<open>Hub()\<close> in that thread returns a new Hub and binds it.
\<close>

theorem hub_singleton:
  "(tls w th = Some h0 \<longrightarrow>
      Hub_init th w =
        (Inl (Exn RuntimeError ''cannot instantiate more than one Hub per thread''), w)) \<and>
   (destroy th h w = (Inr (), w1) \<longrightarrow>
      tls w1 = (tls w)(th := None) \<and>
      fst (Hub_init th w1) = Inr (next_ref w1) \<and>
      tls (snd (Hub_init th w1)) th = Some (next_ref w1))"
proof (intro conjI impI)
  assume "tls w th = Some h0"
  then show "Hub_init th w =
        (Inl (Exn RuntimeError ''cannot instantiate more than one Hub per thread''), w)"
    by (simp add: Hub_init_def)
next
  assume d: "destroy th h w = (Inr (), w1)"
  then show t: "tls w1 = (tls w)(th := None)" by (rule destroy_ok_tls)
  then have n: "tls w1 th = None" by simp
  show "fst (Hub_init th w1) = Inr (next_ref w1)" using n by (rule Hub_init_fresh)
  show "tls (snd (Hub_init th w1)) th = Some (next_ref w1)"
    using Hub_init_fresh(2) [OF n] by simp
qed

theorem hub_singleton_witness:
  "Hub_init 0 world1 =
     (Inl (Exn RuntimeError ''cannot instantiate more than one Hub per thread''), world1) \<and>
   tls world1_destroyed 0 = None \<and>
   fst (Hub_init 0 world1_destroyed) = Inr 10 \<and>
   tls (snd (Hub_init 0 world1_destroyed)) 0 = Some 10"
  using hub_singleton [of world1 0 2 2 world1_destroyed] destroy_world1
  by (simp add: world1_fields world1_destroyed_fields)

text \<open>
  C9. \<open>destroy()\<close> fails with \<open>RuntimeError\<close> ("hub is already destroyed") when no Hub
  is bound to the calling thread, and with \<open>RuntimeError\<close> ("destroy() can only be
  called from the same thread were the hub was created") when the Hub bound to the
  calling thread is another one. In both cases the state is returned as it was: no
  handle is closed, no attribute is released and the bindings stay.
\<close>

theorem destroy_failures:
  "(tls w th = None \<longrightarrow>
      destroy th self w = (Inl (Exn RuntimeError ''hub is already destroyed''), w)) \<and>
   (tls w th = Some other \<and> other \<noteq> self \<longrightarrow>
      destroy th self w =
        (Inl (Exn RuntimeError
           ''destroy() can only be called from the same thread were the hub was created''), w))"
  by (simp add: destroy_def)

theorem destroy_failures_witness:
  "destroy 1 2 world1 = (Inl (Exn RuntimeError ''hub is already destroyed''), world1) \<and>
   destroy 1 2 world2 =
     (Inl (Exn RuntimeError
        ''destroy() can only be called from the same thread were the hub was created''), world2) \<and>
   tls world2 0 = Some 2 \<and> loop (hub_heap world2 2) = Some 4 \<and>
   \<not> closed (handle_heap world2 8)"
  using destroy_failures [where w = world1 and th = 1 and self = 2]
        destroy_failures [where w = world2 and th = 1 and self = 2 and other = 10]
  by (simp add: world1_fields world2_fields new_handle_def)

text \<open>
  C10. \<open>get_hub()\<close> raises \<open>RuntimeError\<close> in a thread to which no Hub is bound, be it
  that none was created or that the Hub was destroyed; in a thread to which a Hub is
  bound it returns that Hub.
\<close>

theorem get_hub_spec:
  "(tls w th = None \<longrightarrow>
      get_hub th w = Inl (Exn RuntimeError ''there is no hub created in the current thread'')) \<and>
   (tls w th = Some h \<longrightarrow> get_hub th w = Inr h) \<and>
   (Hub_init th w = (Inr h, w1) \<longrightarrow> get_hub th w1 = Inr h) \<and>
   (destroy th h w = (Inr (), w2) \<longrightarrow>
      get_hub th w2 = Inl (Exn RuntimeError ''there is no hub created in the current thread''))"
proof (intro conjI impI)
  assume "Hub_init th w = (Inr h, w1)"
  then have "tls w1 th = Some h"
    by (auto simp: Hub_init_def Let_def split: if_splits)
  then show "get_hub th w1 = Inr h" by (rule get_hub_bound)
next
  assume "destroy th h w = (Inr (), w2)"
  then have "tls w2 th = None" using destroy_ok_tls(2) by fastforce
  then show "get_hub th w2 = Inl (Exn RuntimeError ''there is no hub created in the current thread'')"
    by (rule get_hub_unbound)
qed (simp_all add: get_hub_def)

theorem get_hub_spec_witness:
  "get_hub 0 world0 = Inl (Exn RuntimeError ''there is no hub created in the current thread'') \<and>
   get_hub 0 world1 = Inr 2 \<and>
   get_hub 0 world1_destroyed =
     Inl (Exn RuntimeError ''there is no hub created in the current thread'')"
proof -
  have a: "tls world0 0 = None" by (simp add: world0_def)
  show ?thesis
    using get_hub_spec [of world0 0 2 world1 world1_destroyed]
          get_hub_spec [of world1 0 2 world1 world1_destroyed]
          a destroy_world1 Hub_init_world0
    by (simp add: world1_fields)
qed

subsection \<open>Switching from the Hub's own greenlet, and the error hook\<close>

lemma world1_in_hub_fields:
  "current world1_in_hub = (\<lambda>th. th)(0 := 3)"
  "hub_heap world1_in_hub = hub_heap world1"
  "fiber_heap world1_in_hub = fiber_heap world1"
  "stderr world1_in_hub = []"
  "thrown world1_in_hub = []"
  by (simp_all add: world1_in_hub_def world1_fields)

lemma chain_contains_self: "chain_contains fh (Some q) q = Some True"
  by (subst chain_contains.simps) simp

lemma issubclass_simps:
  "issubclass typ [] = False"
  "issubclass typ (c # cs) = (c \<in> set (mro typ) \<or> issubclass typ cs)"
  by (auto simp: issubclass_def)

lemma switch_in_hub_fiber:
  assumes "current w th = greenlet (hub_heap w self)"
      and "switch_out_hook (fiber_heap w (current w th)) = None"
  shows "switch env th self w = Some (Inr (), w)"
proof -
  have "greenlet_switch th (greenlet (hub_heap w self)) w = w"
    using assms(1) by (simp add: greenlet_switch_def fun_upd_idem)
  then show ?thesis
    using assms
    by (simp add: switch_def set_parent_def chain_contains_self issubclass_simps Let_def)
qed

text \<open>
  C7. The claim is that \<open>switch()\<close> called by the Hub's own greenlet fails with
  \<open>RuntimeError\<close> ("Cannot switch to MAINLOOP from MAINLOOP"). The code looks
  \<open>switch_out\<close> up on the current greenlet, and the Hub's greenlet is a plain
  \<open>greenlet(self._run_loop)\<close> without that attribute, so \<open>Hub.switch_out\<close> is never
  called: the assignment of the parent raises \<open>ValueError\<close>, which is swallowed, and
  the greenlet switches to itself. In \<open>world1_in_hub\<close> the Hub's greenlet is the
  running fiber, the call returns without an error and leaves the state as it was,
  and \<open>Hub.switch_out\<close>, had it been called, would have raised the error.
\<close>

theorem switch_from_hub_fiber_returns:
  "current world1_in_hub 0 = greenlet (hub_heap world1_in_hub 2) \<and>
   switch env 0 2 world1_in_hub = Some (Inr (), world1_in_hub) \<and>
   fst (switch_out 2 world1_in_hub) =
     Inl (Exn RuntimeError ''Cannot switch to MAINLOOP from MAINLOOP'')"
proof -
  have c: "current world1_in_hub 0 = greenlet (hub_heap world1_in_hub 2)"
    by (simp add: world1_in_hub_fields world1_fields)
  have "switch env 0 2 world1_in_hub = Some (Inr (), world1_in_hub)"
    using c by (rule switch_in_hub_fiber) (simp add: world1_in_hub_fields world1_fields)
  then show ?thesis using c by (simp add: switch_out_def)
qed

lemma handle_error_stderr:
  "stderr (snd (handle_error th self typ value w)) =
     stderr w @ (if issubclass typ NOT_ERROR then [] else [Exn typ value])"
  by (simp add: handle_error_def greenlet_throw_def Let_def split: option.splits)

lemma handle_error_outside_hub_fiber:
  assumes "issubclass typ SYSTEM_ERROR"
      and "current w th \<noteq> greenlet (hub_heap w self)"
  shows "fst (handle_error th self typ value w) =
           Inl (Exn AttributeError ''Hub object has no attribute parent'')"
    and "hub_heap (snd (handle_error th self typ value w)) = hub_heap w"
    and "thrown (snd (handle_error th self typ value w)) = thrown w"
  using assms by (simp_all add: handle_error_def Let_def)

text \<open>
  C5, as amended. An error of a \<open>SYSTEM_ERROR\<close> class that reaches \<open>_handle_error\<close>
  is written to the error output, whatever fiber is running, unless its class is also
  a \<open>NOT_ERROR\<close> class (\<open>GreenletExit\<close>, \<open>SystemExit\<close> or a class derived from one of
  them), and nothing else is written. When the Hub's greenlet is the running fiber,
  the hook returns after the error, logged or not as said, has been thrown into the
  parent of the Hub's greenlet, which becomes the running fiber.
\<close>

theorem handle_error_system_error:
  assumes "issubclass typ SYSTEM_ERROR"
  shows "stderr (snd (handle_error th self typ msg w)) =
           stderr w @ (if issubclass typ NOT_ERROR then [] else [Exn typ msg]) \<and>
         (current w th = greenlet (hub_heap w self) \<and>
          parent (fiber_heap w (greenlet (hub_heap w self))) = Some p \<longrightarrow>
            handle_error th self typ msg w =
              (Inr (), greenlet_throw th p (Exn typ msg)
                 (if issubclass typ NOT_ERROR then w
                  else w\<lparr>stderr := stderr w @ [Exn typ msg]\<rparr>)))"
  using assms by (simp add: handle_error_stderr) (simp add: handle_error_def Let_def)

theorem handle_error_system_error_witness:
  "issubclass KeyboardInterrupt SYSTEM_ERROR \<and>
   \<not> issubclass KeyboardInterrupt NOT_ERROR \<and>
   current world1 0 \<noteq> greenlet (hub_heap world1 2) \<and>
   stderr (snd (handle_error 0 2 KeyboardInterrupt ''stop'' world1)) =
     [Exn KeyboardInterrupt ''stop''] \<and>
   handle_error 0 2 KeyboardInterrupt ''stop'' world1_in_hub =
     (Inr (), world1_in_hub\<lparr>current := (\<lambda>th. th), stderr := [Exn KeyboardInterrupt ''stop''],
                thrown := [(0, Exn KeyboardInterrupt ''stop'')]\<rparr>)"
proof -
  have s: "issubclass KeyboardInterrupt SYSTEM_ERROR"
    and n: "\<not> issubclass KeyboardInterrupt NOT_ERROR"
    by (simp_all add: issubclass_simps SYSTEM_ERROR_def NOT_ERROR_def)
  note a = handle_error_system_error [OF s, where w = world1 and th = 0 and self = 2
      and msg = "''stop''" and p = 0]
  note b = handle_error_system_error [OF s, where w = world1_in_hub and th = 0 and self = 2
      and msg = "''stop''" and p = 0]
  have l: "stderr (snd (handle_error 0 2 KeyboardInterrupt ''stop'' world1)) =
     [Exn KeyboardInterrupt ''stop'']"
    using a [THEN conjunct1] n by (simp add: world1_fields)
  have t: "handle_error 0 2 KeyboardInterrupt ''stop'' world1_in_hub =
     (Inr (), world1_in_hub\<lparr>current := (\<lambda>th. th), stderr := [Exn KeyboardInterrupt ''stop''],
                thrown := [(0, Exn KeyboardInterrupt ''stop'')]\<rparr>)"
    using b [THEN conjunct2] n
    by (simp add: world1_in_hub_fields world1_fields greenlet_throw_def fun_upd_idem)
  show ?thesis using s n l t by (simp add: world1_fields)
qed

text \<open>
  C5 as stated fails: \<open>SystemExit\<close> is a \<open>SYSTEM_ERROR\<close> class, and an error of that
  class is thrown into the parent without being written to the error output.
\<close>

theorem handle_error_counterexample:
  "issubclass SystemExit SYSTEM_ERROR \<and>
   fst (handle_error 0 2 SystemExit ''exit'' world1_in_hub) = Inr () \<and>
   stderr (snd (handle_error 0 2 SystemExit ''exit'' world1_in_hub)) = [] \<and>
   thrown (snd (handle_error 0 2 SystemExit ''exit'' world1_in_hub)) = [(0, Exn SystemExit ''exit'')]"
  by (simp add: handle_error_def issubclass_simps SYSTEM_ERROR_def NOT_ERROR_def Let_def
      world1_in_hub_fields world1_fields greenlet_throw_def)

subsection \<open>Next-tick callbacks\<close>

lemma upd_simps [simp]:
  "hub_heap (upd_handle a f w) = hub_heap w"
  "hub_heap (upd_timer t g w) = hub_heap w"
  "hub_heap (upd_fiber c k w) = hub_heap w"
  "hub_heap (upd_hub h j w) = (hub_heap w)(h := j (hub_heap w h))"
  "handle_heap (upd_hub h j w) = handle_heap w"
  "handle_heap (upd_timer t g w) = handle_heap w"
  "handle_heap (upd_fiber c k w) = handle_heap w"
  "handle_heap (upd_handle a f w) = (handle_heap w)(a := f (handle_heap w a))"
  "timer_heap (upd_hub h j w) = timer_heap w"
  "timer_heap (upd_handle a f w) = timer_heap w"
  "timer_heap (upd_fiber c k w) = timer_heap w"
  "timer_heap (upd_timer t g w) = (timer_heap w)(t := g (timer_heap w t))"
  "fiber_heap (upd_hub h j w) = fiber_heap w"
  "fiber_heap (upd_handle a f w) = fiber_heap w"
  "fiber_heap (upd_timer t g w) = fiber_heap w"
  "fiber_heap (upd_fiber c k w) = (fiber_heap w)(c := k (fiber_heap w c))"
  "tls (upd_hub h j w) = tls w"
  "tls (upd_handle a f w) = tls w"
  "tls (upd_timer t g w) = tls w"
  "tls (upd_fiber c k w) = tls w"
  "current (upd_hub h j w) = current w"
  "current (upd_handle a f w) = current w"
  "current (upd_timer t g w) = current w"
  "current (upd_fiber c k w) = current w"
  "next_ref (upd_hub h j w) = next_ref w"
  "next_ref (upd_handle a f w) = next_ref w"
  "next_ref (upd_timer t g w) = next_ref w"
  "next_ref (upd_fiber c k w) = next_ref w"
  by (simp_all add: upd_hub_def upd_handle_def upd_timer_def upd_fiber_def)

lemma next_tick_inactive:
  assumes "tick_state self p i w"
      and "tick_callbacks (hub_heap w self) = Some q"
      and "\<not> active (handle_heap w p)"
  shows "next_tick self f w =
           (Inr (),
            upd_handle i (\<lambda>x. x\<lparr>active := True, hcallback := IdleStopCb, starts := Suc (starts x)\<rparr>)
              (upd_handle p (\<lambda>x. x\<lparr>active := True, hcallback := TickCb self, starts := Suc (starts x)\<rparr>)
                 (upd_hub self (\<lambda>x. x\<lparr>tick_callbacks := Some (q @ [f])\<rparr>) w)))"
  using assms by (simp add: next_tick_def tick_state_def handle_start_def Let_def)

lemma next_tick_active:
  assumes "tick_prepare (hub_heap w self) = Some p"
      and "tick_callbacks (hub_heap w self) = Some q"
      and "active (handle_heap w p)"
  shows "next_tick self f w =
           (Inr (), upd_hub self (\<lambda>x. x\<lparr>tick_callbacks := Some (q @ [f])\<rparr>) w)"
  using assms by (simp add: next_tick_def Let_def)

lemma upd_hub_queue_twice:
  "upd_hub self (\<lambda>x. x\<lparr>tick_callbacks := Some b\<rparr>)
     (upd_hub self (\<lambda>x. x\<lparr>tick_callbacks := Some a\<rparr>) w) =
   upd_hub self (\<lambda>x. x\<lparr>tick_callbacks := Some b\<rparr>) w"
  by (simp add: upd_hub_def)

lemma tick_state_upd_queue [simp]:
  "tick_state self p i (upd_hub self (\<lambda>x. x\<lparr>tick_callbacks := c\<rparr>) w) = tick_state self p i w"
  by (simp add: tick_state_def)

lemma next_tick_all_active:
  assumes "tick_prepare (hub_heap w self) = Some p"
      and "tick_callbacks (hub_heap w self) = Some q"
      and "active (handle_heap w p)"
      and "fs \<noteq> []"
  shows "next_tick_all self fs w =
           (Inr (), upd_hub self (\<lambda>x. x\<lparr>tick_callbacks := Some (q @ fs)\<rparr>) w)"
  using assms
proof (induction fs arbitrary: w q)
  case Nil
  then show ?case by simp
next
  case (Cons f fs)
  let ?w1 = "upd_hub self (\<lambda>x. x\<lparr>tick_callbacks := Some (q @ [f])\<rparr>) w"
  have step: "next_tick self f w = (Inr (), ?w1)"
    using Cons.prems by (simp add: next_tick_active)
  show ?case
  proof (cases "fs = []")
    case True
    then show ?thesis using step by simp
  next
    case False
    have "next_tick_all self fs ?w1 =
            (Inr (), upd_hub self (\<lambda>x. x\<lparr>tick_callbacks := Some ((q @ [f]) @ fs)\<rparr>) ?w1)"
      by (rule Cons.IH) (use Cons.prems False in simp_all)
    then show ?thesis using step by (simp add: upd_hub_queue_twice)
  qed
qed

lemma starts_active_next_tick_all:
  assumes "tick_state self p i w"
      and "tick_callbacks (hub_heap w self) = Some q"
      and "\<not> active (handle_heap w p)"
      and "fs \<noteq> []"
  shows "fst (next_tick_all self fs w) = Inr ()"
    and "starts (handle_heap (snd (next_tick_all self fs w)) p) = Suc (starts (handle_heap w p))"
    and "active (handle_heap (snd (next_tick_all self fs w)) p)"
    and "tick_callbacks (hub_heap (snd (next_tick_all self fs w)) self) = Some (q @ fs)"
    and "tick_state self p i (snd (next_tick_all self fs w))"
proof -
  obtain f fs' where fs: "fs = f # fs'" using assms(4) by (cases fs) auto
  let ?w1 = "upd_handle i (\<lambda>x. x\<lparr>active := True, hcallback := IdleStopCb, starts := Suc (starts x)\<rparr>)
              (upd_handle p (\<lambda>x. x\<lparr>active := True, hcallback := TickCb self, starts := Suc (starts x)\<rparr>)
                 (upd_hub self (\<lambda>x. x\<lparr>tick_callbacks := Some (q @ [f])\<rparr>) w))"
  have step: "next_tick self f w = (Inr (), ?w1)"
    using assms(1-3) by (rule next_tick_inactive)
  have pi: "p \<noteq> i" using assms(1) by (simp add: tick_state_def)
  have w1: "tick_prepare (hub_heap ?w1 self) = Some p"
    "tick_callbacks (hub_heap ?w1 self) = Some (q @ [f])"
    "active (handle_heap ?w1 p)"
    "starts (handle_heap ?w1 p) = Suc (starts (handle_heap w p))"
    "tick_state self p i ?w1"
    using assms(1) pi by (simp_all add: tick_state_def)
  have rest: "next_tick_all self fs w =
     (if fs' = [] then (Inr (), ?w1)
      else (Inr (), upd_hub self (\<lambda>x. x\<lparr>tick_callbacks := Some ((q @ [f]) @ fs')\<rparr>) ?w1))"
    using step next_tick_all_active [OF w1(1,2,3), of fs'] by (simp add: fs)
  show "fst (next_tick_all self fs w) = Inr ()" using rest by simp
  show "starts (handle_heap (snd (next_tick_all self fs w)) p) = Suc (starts (handle_heap w p))"
    using rest w1(4) by simp
  show "active (handle_heap (snd (next_tick_all self fs w)) p)"
    using rest w1(3) by simp
  show "tick_callbacks (hub_heap (snd (next_tick_all self fs w)) self) = Some (q @ fs)"
    using rest w1(2) by (simp add: fs)
  show "tick_state self p i (snd (next_tick_all self fs w))"
    using rest w1(5) by simp
qed

lemma tick_cb_flush:
  assumes "tick_state self p i w"
      and "tick_callbacks (hub_heap w self) = Some q"
  shows "tick_cb env th self w = run_callbacks (env th) q (flush_start self p i w)"
  using assms by (simp add: tick_cb_def tick_state_def handle_stop_def flush_start_def Let_def)

lemma flush_start_state:
  assumes "tick_state self p i w"
  shows "tick_state self p i (flush_start self p i w)"
    and "\<not> active (handle_heap (flush_start self p i w) p)"
    and "\<not> active (handle_heap (flush_start self p i w) i)"
    and "tick_callbacks (hub_heap (flush_start self p i w) self) = Some []"
  using assms by (simp_all add: flush_start_def tick_state_def)

lemma state_after_Cons [simp]:
  "state_after code (f # fs) w = state_after code fs (snd (code f w))"
  by (simp add: state_after_def)

lemma state_after_Nil [simp]: "state_after code [] w = w"
  by (simp add: state_after_def)

lemma run_callbacks_all_return:
  assumes "\<forall>j<length fs. fst (code (fs ! j) (state_after code (take j fs) w)) = Inr ()"
  shows "run_callbacks code fs w = (Inr (), state_after code fs w, fs)"
  using assms
proof (induction fs arbitrary: w)
  case Nil
  then show ?case by simp
next
  case (Cons f fs)
  have "fst (code f w) = Inr ()" using Cons.prems by (auto dest: spec [of _ 0])
  then have e: "code f w = (Inr (), snd (code f w))" by (metis prod.collapse)
  have "\<forall>j<length fs. fst (code (fs ! j) (state_after code (take j fs) (snd (code f w)))) = Inr ()"
  proof (intro allI impI)
    fix j assume "j < length fs"
    then show "fst (code (fs ! j) (state_after code (take j fs) (snd (code f w)))) = Inr ()"
      using Cons.prems by (auto dest: spec [of _ "Suc j"])
  qed
  then have "run_callbacks code fs (snd (code f w)) =
      (Inr (), state_after code fs (snd (code f w)), fs)"
    by (rule Cons.IH)
  then show ?case by (subst run_callbacks.simps, subst e) simp
qed

lemma run_callbacks_first_raise:
  assumes "k < length fs"
      and "\<forall>j<k. fst (code (fs ! j) (state_after code (take j fs) w)) = Inr ()"
      and "fst (code (fs ! k) (state_after code (take k fs) w)) = Inl e"
  shows "run_callbacks code fs w =
           (Inl e, state_after code (take (Suc k) fs) w, take (Suc k) fs)"
  using assms
proof (induction fs arbitrary: w k)
  case Nil
  then show ?case by simp
next
  case (Cons f fs)
  show ?case
  proof (cases k)
    case 0
    then have "fst (code f w) = Inl e" using Cons.prems(3) by simp
    then have c: "code f w = (Inl e, snd (code f w))" by (metis prod.collapse)
    show ?thesis using 0 by (subst run_callbacks.simps, subst c) simp
  next
    case (Suc k')
    have "fst (code f w) = Inr ()" using Cons.prems(2) Suc by (auto dest: spec [of _ 0])
    then have c: "code f w = (Inr (), snd (code f w))" by (metis prod.collapse)
    have k': "k' < length fs" using Cons.prems(1) Suc by simp
    have before: "\<forall>j<k'. fst (code (fs ! j) (state_after code (take j fs) (snd (code f w)))) = Inr ()"
    proof (intro allI impI)
      fix j assume "j < k'"
      then show "fst (code (fs ! j) (state_after code (take j fs) (snd (code f w)))) = Inr ()"
        using Cons.prems(2) Suc by (auto dest: spec [of _ "Suc j"])
    qed
    have at: "fst (code (fs ! k') (state_after code (take k' fs) (snd (code f w)))) = Inl e"
      using Cons.prems(3) Suc by simp
    have "run_callbacks code fs (snd (code f w)) =
        (Inl e, state_after code (take (Suc k') fs) (snd (code f w)), take (Suc k') fs)"
      using k' before at by (rule Cons.IH)
    then show ?thesis using Suc by (subst run_callbacks.simps, subst c) simp
  qed
qed

lemma next_tick_all_live:
  assumes "tick_state self p i u"
      and "tick_callbacks (hub_heap u self) = Some q"
  shows "fst (next_tick_all self gs u) = Inr () \<and>
         tick_state self p i (snd (next_tick_all self gs u)) \<and>
         tick_callbacks (hub_heap (snd (next_tick_all self gs u)) self) = Some (q @ gs) \<and>
         active (handle_heap (snd (next_tick_all self gs u)) p) =
           (active (handle_heap u p) \<or> gs \<noteq> [])"
proof (cases "gs = []")
  case True
  then show ?thesis using assms by simp
next
  case False
  show ?thesis
  proof (cases "active (handle_heap u p)")
    case True
    have pr: "tick_prepare (hub_heap u self) = Some p" using assms(1) by (simp add: tick_state_def)
    show ?thesis
      using next_tick_all_active [OF pr assms(2) True False] assms(1) True by simp
  next
    case inactive: False
    show ?thesis
      using starts_active_next_tick_all [OF assms inactive False] False by simp
  qed
qed

lemma run_callbacks_enqueuers:
  assumes "tick_state self p i u"
      and "tick_callbacks (hub_heap u self) = Some q"
      and "\<forall>f\<in>set fs. \<forall>v. code f v = next_tick_all self (enq f) v"
  shows "\<exists>u'. run_callbacks code fs u = (Inr (), u', fs) \<and>
           tick_state self p i u' \<and>
           tick_callbacks (hub_heap u' self) = Some (q @ concat (map enq fs)) \<and>
           active (handle_heap u' p) = (active (handle_heap u p) \<or> concat (map enq fs) \<noteq> [])"
  using assms
proof (induction fs arbitrary: u q)
  case Nil
  then show ?case by simp
next
  case (Cons f fs)
  let ?u1 = "snd (next_tick_all self (enq f) u)"
  note n = next_tick_all_live [OF Cons.prems(1,2), of "enq f"]
  have c: "code f u = (Inr (), ?u1)"
    using Cons.prems(3) n by (metis list.set_intros(1) prod.collapse)
  have rest: "\<forall>g\<in>set fs. \<forall>v. code g v = next_tick_all self (enq g) v"
    using Cons.prems(3) by simp
  obtain u' where u': "run_callbacks code fs ?u1 = (Inr (), u', fs)"
      "tick_state self p i u'"
      "tick_callbacks (hub_heap u' self) = Some ((q @ enq f) @ concat (map enq fs))"
      "active (handle_heap u' p) = (active (handle_heap ?u1 p) \<or> concat (map enq fs) \<noteq> [])"
    using Cons.IH [OF n [THEN conjunct2, THEN conjunct1]
        n [THEN conjunct2, THEN conjunct2, THEN conjunct1] rest] by blast
  have "run_callbacks code (f # fs) u = (Inr (), u', f # fs)"
    using u'(1) by (subst run_callbacks.simps, subst c) simp
  moreover have "active (handle_heap u' p) =
      (active (handle_heap u p) \<or> concat (map enq (f # fs)) \<noteq> [])"
    using u'(4) n by auto
  ultimately show ?case using u'(2,3) by auto
qed

text \<open>
  C4, as amended. On a live Hub whose prepare handle is inactive and whose queue holds
  \<open>q\<close>, a sequence \<open>fs\<close> of one or more calls of \<open>next_tick\<close> returns without error,
  starts the prepare handle exactly once, and leaves \<open>q @ fs\<close> in the queue. When
  \<open>_tick_cb\<close> then fires in thread \<open>th\<close>, the callbacks run from the state \<open>w2\<close> in
  which the prepare handle is stopped and the queue is empty, and
  \<^item> if each callback returns in the state its predecessors left, the flush returns,
    having called all of them in the order of the queue, in the state the last one left;
  \<^item> if the callback at position \<open>k\<close> is the first that raises, the flush raises that
    error, having called the callbacks up to and including that one, in that order,
    and none of the later ones; its state is the one the raising callback left;
  \<^item> if every queued callback does nothing but enqueue callbacks of its own with
    \<open>next_tick\<close>, the flush calls the queued callbacks and none of the new ones, which
    are all in the new queue afterwards, in the order they were enqueued, and the
    prepare handle is started again exactly if there are any;
  \<^item> a \<open>next_tick\<close> made in \<open>w2\<close> lands alone in the new queue and starts the prepare
    handle again.
\<close>

theorem tick_coalescing:
  assumes "tick_state self p i w"
      and "tick_callbacks (hub_heap w self) = Some q"
      and "\<not> active (handle_heap w p)"
      and "fs \<noteq> []"
  shows "fst (next_tick_all self fs w) = Inr () \<and>
    (let w1 = snd (next_tick_all self fs w);
         w2 = flush_start self p i w1;
         cbs = q @ fs;
         code = env th
     in starts (handle_heap w1 p) = Suc (starts (handle_heap w p)) \<and>
        active (handle_heap w1 p) \<and>
        tick_callbacks (hub_heap w1 self) = Some cbs \<and>
        \<not> active (handle_heap w2 p) \<and>
        tick_callbacks (hub_heap w2 self) = Some [] \<and>
        ((\<forall>j<length cbs. fst (code (cbs ! j) (state_after code (take j cbs) w2)) = Inr ()) \<longrightarrow>
           tick_cb env th self w1 = (Inr (), state_after code cbs w2, cbs)) \<and>
        (\<forall>k e. k < length cbs \<and>
           (\<forall>j<k. fst (code (cbs ! j) (state_after code (take j cbs) w2)) = Inr ()) \<and>
           fst (code (cbs ! k) (state_after code (take k cbs) w2)) = Inl e \<longrightarrow>
           tick_cb env th self w1 =
             (Inl e, state_after code (take (Suc k) cbs) w2, take (Suc k) cbs)) \<and>
        (\<forall>enq. (\<forall>f\<in>set cbs. \<forall>v. code f v = next_tick_all self (enq f) v) \<longrightarrow>
           (\<exists>u. tick_cb env th self w1 = (Inr (), u, cbs) \<and>
                tick_callbacks (hub_heap u self) = Some (concat (map enq cbs)) \<and>
                active (handle_heap u p) = (concat (map enq cbs) \<noteq> []))) \<and>
        (\<forall>g. fst (next_tick self g w2) = Inr () \<and>
             tick_callbacks (hub_heap (snd (next_tick self g w2)) self) = Some [g] \<and>
             active (handle_heap (snd (next_tick self g w2)) p)))"
proof -
  let ?w1 = "snd (next_tick_all self fs w)"
  let ?w2 = "flush_start self p i ?w1"
  let ?cbs = "q @ fs"
  let ?code = "env th"
  note n = starts_active_next_tick_all [OF assms]
  note f = flush_start_state [OF n(5)]
  have cb: "tick_cb env th self ?w1 = run_callbacks ?code ?cbs ?w2"
    using n(5) n(4) by (rule tick_cb_flush)
  have all: "(\<forall>j<length ?cbs. fst (?code (?cbs ! j) (state_after ?code (take j ?cbs) ?w2)) = Inr ()) \<longrightarrow>
           tick_cb env th self ?w1 = (Inr (), state_after ?code ?cbs ?w2, ?cbs)"
    unfolding cb using run_callbacks_all_return [of ?cbs ?code ?w2] by blast
  have raise: "\<forall>k e. k < length ?cbs \<and>
           (\<forall>j<k. fst (?code (?cbs ! j) (state_after ?code (take j ?cbs) ?w2)) = Inr ()) \<and>
           fst (?code (?cbs ! k) (state_after ?code (take k ?cbs) ?w2)) = Inl e \<longrightarrow>
           tick_cb env th self ?w1 =
             (Inl e, state_after ?code (take (Suc k) ?cbs) ?w2, take (Suc k) ?cbs)"
    unfolding cb using run_callbacks_first_raise [of _ ?cbs ?code ?w2] by blast
  have enq: "\<forall>enq. (\<forall>f\<in>set ?cbs. \<forall>v. ?code f v = next_tick_all self (enq f) v) \<longrightarrow>
           (\<exists>u. tick_cb env th self ?w1 = (Inr (), u, ?cbs) \<and>
                tick_callbacks (hub_heap u self) = Some (concat (map enq ?cbs)) \<and>
                active (handle_heap u p) = (concat (map enq ?cbs) \<noteq> []))"
  proof (intro allI impI)
    fix enq
    assume h: "\<forall>f\<in>set ?cbs. \<forall>v. ?code f v = next_tick_all self (enq f) v"
    obtain u where u: "run_callbacks ?code ?cbs ?w2 = (Inr (), u, ?cbs)"
      "tick_callbacks (hub_heap u self) = Some ([] @ concat (map enq ?cbs))"
      "active (handle_heap u p) = (active (handle_heap ?w2 p) \<or> concat (map enq ?cbs) \<noteq> [])"
      using run_callbacks_enqueuers [OF f(1) f(4) h] by blast
    show "\<exists>u. tick_cb env th self ?w1 = (Inr (), u, ?cbs) \<and>
                tick_callbacks (hub_heap u self) = Some (concat (map enq ?cbs)) \<and>
                active (handle_heap u p) = (concat (map enq ?cbs) \<noteq> [])"
      unfolding cb using u f(2) by (intro exI [of _ u]) simp
  qed
  have again: "\<forall>g. fst (next_tick self g ?w2) = Inr () \<and>
             tick_callbacks (hub_heap (snd (next_tick self g ?w2)) self) = Some [g] \<and>
             active (handle_heap (snd (next_tick self g ?w2)) p)"
  proof
    fix g
    have pi: "p \<noteq> i" using f(1) by (simp add: tick_state_def)
    show "fst (next_tick self g ?w2) = Inr () \<and>
             tick_callbacks (hub_heap (snd (next_tick self g ?w2)) self) = Some [g] \<and>
             active (handle_heap (snd (next_tick self g ?w2)) p)"
      using next_tick_inactive [OF f(1) f(4) f(2), of g] pi by simp
  qed
  show ?thesis
    unfolding Let_def
    using n(1) n(2) n(3) n(4) f(2) f(4) all raise enq again
    by (intro conjI)
qed

lemma world1_tick_state:
  "tick_state 2 8 9 world1"
  "tick_callbacks (hub_heap world1 2) = Some []"
  "\<not> active (handle_heap world1 8)"
  by (simp_all add: tick_state_def world1_fields new_handle_def)

lemma world1_queued_fields:
  "tick_state 2 8 9 world1_queued"
  "tick_callbacks (hub_heap world1_queued 2) = Some [Partial 1 [], Partial 2 []]"
  "starts (handle_heap world1_queued 8) = 1"
proof -
  note n = starts_active_next_tick_all [OF world1_tick_state, of "[Partial 1 [], Partial 2 []]",
      folded world1_queued_def]
  show "tick_state 2 8 9 world1_queued" using n(5) by simp
  show "tick_callbacks (hub_heap world1_queued 2) = Some [Partial 1 [], Partial 2 []]"
    using n(4) by simp
  show "starts (handle_heap world1_queued 8) = 1"
    using n(2) by (simp add: world1_fields new_handle_def)
qed

text \<open>
  C4 as stated fails: with \<open>Partial 1 []\<close> and \<open>Partial 2 []\<close> queued, and the first
  one raising, the flush calls the first callback only; the second is no longer in the
  queue, so it is never called.
\<close>

theorem tick_flush_counterexample:
  "tick_callbacks (hub_heap world1_queued 2) = Some [Partial 1 [], Partial 2 []] \<and>
   snd (snd (tick_cb env_raise 0 2 world1_queued)) = [Partial 1 []] \<and>
   tick_callbacks (hub_heap (fst (snd (tick_cb env_raise 0 2 world1_queued))) 2) = Some []"
proof -
  have "tick_cb env_raise 0 2 world1_queued =
          run_callbacks (env_raise 0) [Partial 1 [], Partial 2 []] (flush_start 2 8 9 world1_queued)"
    using world1_queued_fields(1,2) by (rule tick_cb_flush)
  also have "\<dots> = (Inl (Exn ValueError ''boom''), flush_start 2 8 9 world1_queued, [Partial 1 []])"
    by (simp add: env_raise_def)
  finally show ?thesis
    using flush_start_state(4) [OF world1_queued_fields(1)] by (simp add: world1_queued_fields)
qed

lemma next_tick_all_single: "next_tick_all self [g] w = next_tick self g w"
  by (cases "next_tick self g w") (auto split: sum.splits)

theorem tick_coalescing_witness:
  "fst (next_tick_all 2 [Partial 1 [], Partial 2 []] world1) = Inr () \<and>
   starts (handle_heap world1 8) = 0 \<and>
   starts (handle_heap world1_queued 8) = 1 \<and>
   tick_callbacks (hub_heap world1_queued 2) = Some [Partial 1 [], Partial 2 []] \<and>
   tick_cb env_raise 0 2 world1_queued =
     (Inl (Exn ValueError ''boom''), flush_start 2 8 9 world1_queued, [Partial 1 []]) \<and>
   (\<exists>u. tick_cb env_enqueue 0 2 world1_queued = (Inr (), u, [Partial 1 [], Partial 2 []]) \<and>
        tick_callbacks (hub_heap u 2) = Some [Partial 3 []] \<and>
        active (handle_heap u 8))"
proof -
  let ?w2 = "flush_start 2 8 9 world1_queued"
  let ?enq = "\<lambda>f. if f = Partial 1 [] then [Partial 3 []] else []"
  have ne: "[Partial 1 [], Partial 2 []] \<noteq> []" by simp
  note t = tick_coalescing [OF world1_tick_state ne, where env = env_enqueue and th = 0,
      unfolded Let_def, folded world1_queued_def]
  note r = tick_coalescing [OF world1_tick_state ne, where env = env_raise and th = 0,
      unfolded Let_def, folded world1_queued_def]
  have a: "fst (next_tick_all 2 [Partial 1 [], Partial 2 []] world1) = Inr ()"
    using t by (rule conjunct1)
  note b = t [THEN conjunct2]
  have s: "starts (handle_heap world1_queued 8) = Suc (starts (handle_heap world1 8))"
    using b by (rule conjunct1)
  have q: "tick_callbacks (hub_heap world1_queued 2) = Some [Partial 1 [], Partial 2 []]"
    using b [THEN conjunct2, THEN conjunct2, THEN conjunct1] by simp
  note raise = r [THEN conjunct2, THEN conjunct2, THEN conjunct2, THEN conjunct2, THEN conjunct2,
      THEN conjunct2, THEN conjunct2, THEN conjunct1, THEN spec, THEN spec,
      of 0 "Exn ValueError ''boom''"]
  have e1: "tick_cb env_raise 0 2 world1_queued =
     (Inl (Exn ValueError ''boom''), ?w2, [Partial 1 []])"
    using raise by (simp add: env_raise_def)
  note enq = b [THEN conjunct2, THEN conjunct2, THEN conjunct2, THEN conjunct2, THEN conjunct2,
      THEN conjunct2, THEN conjunct2, THEN conjunct1, THEN spec, of ?enq]
  have e2: "\<exists>u. tick_cb env_enqueue 0 2 world1_queued = (Inr (), u, [Partial 1 [], Partial 2 []]) \<and>
        tick_callbacks (hub_heap u 2) = Some [Partial 3 []] \<and>
        active (handle_heap u 8)"
  proof -
    have h: "\<forall>f\<in>set ([] @ [Partial 1 [], Partial 2 []]).
        \<forall>v. env_enqueue 0 f v = next_tick_all 2 (?enq f) v"
      by (simp add: env_enqueue_def next_tick_all_single del: next_tick_all.simps(2))
    show ?thesis using enq [THEN mp, OF h] by simp
  qed
  show ?thesis
    using a s q e1 e2 by (simp add: world1_fields new_handle_def)
qed

subsection \<open>Calls from other threads\<close>

lemma reactor_fire_closed:
  "closed (handle_heap w a) \<Longrightarrow> reactor_fire env th a w = (Inr (), w, [])"
  by (simp add: reactor_fire_def)

lemma reactor_fire_other_thread:
  "loop_thread (loop_heap w (owner (handle_heap w a))) \<noteq> th \<Longrightarrow>
   reactor_fire env th a w = (Inr (), w, [])"
  by (simp add: reactor_fire_def)

lemma call_from_thread_live:
  assumes "loop (hub_heap w self) = Some l"
  shows "call_from_thread self func w =
           (Inr (),
            upd_handle (next_ref w) (\<lambda>x. x\<lparr>sent := True\<rparr>)
              ((upd_handle (next_ref w)
                  (\<lambda>x. (new_handle Async l (ThreadCb func (next_ref w)))\<lparr>active := True\<rparr>) w)
                 \<lparr>next_ref := Suc (next_ref w)\<rparr>))"
  using assms
  by (simp add: call_from_thread_def handle_send_def Let_def new_handle_def upd_handle_def)

lemma call_from_thread_cb_result:
  "call_from_thread_cb env th func a w =
     (if closed (handle_heap (snd (env th func w)) a)
      then (Inl handle_closed_error, snd (env th func w), [func])
      else (fst (env th func w),
            upd_handle a (\<lambda>x. x\<lparr>closed := True, active := False\<rparr>) (snd (env th func w)),
            [func]))"
  by (simp add: call_from_thread_cb_def handle_close_def split: prod.splits)

lemma Hub_init_thread:
  assumes "Hub_init th w = (Inr self, w')"
  shows "tls w' th = Some self"
    and "\<exists>l. loop (hub_heap w' self) = Some l \<and> loop_thread (loop_heap w' l) = th"
  using assms by (auto simp: Hub_init_def Let_def split: if_splits)

text \<open>
  C8. Let \<open>th\<close> be the thread of the Hub's loop, the thread that created the Hub.
  \<open>call_from_thread\<close>, in whatever thread it is called, returns without error after it
  has created one new async handle (the next unused reference, every other handle left
  as it was) whose callback is the closure over \<open>func\<close> and the handle, and has sent
  it; it has no means to call \<open>func\<close> itself. The reactor of no other thread fires the
  handle. When the reactor of \<open>th\<close> fires it, \<open>func\<close> is run once, in thread \<open>th\<close>,
  from the state the send left, and then the handle is closed, whether \<open>func\<close>
  returned or raised: the outcome is that of \<open>func\<close> and the state is the one \<open>func\<close>
  left with the handle closed (if \<open>func\<close> closed the handle itself, the state is the
  one it left and the outcome is the error of closing twice). Once closed the handle
  is fired by no reactor again, so \<open>func\<close> is run exactly once.
\<close>

theorem call_from_thread_once:
  assumes "loop (hub_heap w self) = Some l"
      and "loop_thread (loop_heap w l) = th"
  shows "fst (call_from_thread self func w) = Inr () \<and>
    (let a = next_ref w;
         w1 = snd (call_from_thread self func w);
         ran = env th func (upd_handle a (\<lambda>x. x\<lparr>sent := False\<rparr>) w1);
         fired = reactor_fire env th a w1;
         w2 = fst (snd fired)
     in next_ref w1 = Suc a \<and>
        handle_heap w1 a = (new_handle Async l (ThreadCb func a))\<lparr>active := True, sent := True\<rparr> \<and>
        (\<forall>b. b \<noteq> a \<longrightarrow> handle_heap w1 b = handle_heap w b) \<and>
        (\<forall>other. other \<noteq> th \<longrightarrow> reactor_fire env other a w1 = (Inr (), w1, [])) \<and>
        fired =
          (if closed (handle_heap (snd ran) a)
           then (Inl handle_closed_error, snd ran, [func])
           else (fst ran,
                 upd_handle a (\<lambda>x. x\<lparr>closed := True, active := False\<rparr>) (snd ran),
                 [func])) \<and>
        closed (handle_heap w2 a) \<and>
        (\<forall>any. reactor_fire env any a w2 = (Inr (), w2, [])))"
proof -
  let ?a = "next_ref w"
  let ?w1 = "snd (call_from_thread self func w)"
  let ?w1' = "upd_handle ?a (\<lambda>x. x\<lparr>sent := False\<rparr>) ?w1"
  let ?ran = "env th func ?w1'"
  let ?fired = "reactor_fire env th ?a ?w1"
  note c = call_from_thread_live [OF assms(1), of func]
  have h: "handle_heap ?w1 ?a = (new_handle Async l (ThreadCb func ?a))\<lparr>active := True, sent := True\<rparr>"
    and n: "next_ref ?w1 = Suc ?a"
    and o: "\<forall>b. b \<noteq> ?a \<longrightarrow> handle_heap ?w1 b = handle_heap w b"
    and lh: "loop_heap ?w1 = loop_heap w"
    unfolding c by (simp_all add: upd_handle_def)
  have lt: "loop_thread (loop_heap ?w1 (owner (handle_heap ?w1 ?a))) = th"
    using h lh assms(2) by (simp add: new_handle_def)
  have others: "\<forall>other. other \<noteq> th \<longrightarrow> reactor_fire env other ?a ?w1 = (Inr (), ?w1, [])"
  proof (intro allI impI)
    fix other assume "other \<noteq> th"
    then have "loop_thread (loop_heap ?w1 (owner (handle_heap ?w1 ?a))) \<noteq> other"
      using lt by simp
    then show "reactor_fire env other ?a ?w1 = (Inr (), ?w1, [])"
      by (rule reactor_fire_other_thread)
  qed
  have f: "?fired = call_from_thread_cb env th func ?a ?w1'"
    using h lt by (simp add: reactor_fire_def new_handle_def)
  have res: "?fired =
          (if closed (handle_heap (snd ?ran) ?a)
           then (Inl handle_closed_error, snd ?ran, [func])
           else (fst ?ran,
                 upd_handle ?a (\<lambda>x. x\<lparr>closed := True, active := False\<rparr>) (snd ?ran),
                 [func]))"
    unfolding f by (rule call_from_thread_cb_result)
  have cl: "closed (handle_heap (fst (snd ?fired)) ?a)"
    unfolding res by simp
  have again: "\<forall>any. reactor_fire env any ?a (fst (snd ?fired)) = (Inr (), fst (snd ?fired), [])"
    using cl reactor_fire_closed by blast
  have r: "fst (call_from_thread self func w) = Inr ()" unfolding c by simp
  show ?thesis
    unfolding Let_def using r n h o others res cl again by (intro conjI)
qed

theorem call_from_thread_once_witness:
  "tls world1 0 = Some 2 \<and> loop (hub_heap world1 2) = Some 4 \<and>
   loop_thread (loop_heap world1 4) = 0 \<and>
   fst (call_from_thread 2 (Partial 1 []) world1) = Inr () \<and>
   handle_heap (snd (call_from_thread 2 (Partial 1 []) world1)) 10 =
     (new_handle Async 4 (ThreadCb (Partial 1 []) 10))\<lparr>active := True, sent := True\<rparr> \<and>
   reactor_fire env_raise 1 10 (snd (call_from_thread 2 (Partial 1 []) world1)) =
     (Inr (), snd (call_from_thread 2 (Partial 1 []) world1), []) \<and>
   reactor_fire env_raise 0 10 (snd (call_from_thread 2 (Partial 1 []) world1)) =
     (Inl (Exn ValueError ''boom''),
      upd_handle 10 (\<lambda>x. x\<lparr>closed := True, active := False, sent := False\<rparr>)
        (snd (call_from_thread 2 (Partial 1 []) world1)),
      [Partial 1 []])"
proof -
  let ?w1 = "snd (call_from_thread 2 (Partial 1 []) world1)"
  have l: "loop (hub_heap world1 2) = Some 4" by (simp add: world1_fields)
  have lt: "loop_thread (loop_heap world1 4) = 0"
    by (simp add: world1_def Hub_init_def world0_def Let_def)
  note t = call_from_thread_once [OF l lt, where func = "Partial 1 []" and env = env_raise,
      unfolded Let_def world1_fields]
  have h: "handle_heap ?w1 10 =
     (new_handle Async 4 (ThreadCb (Partial 1 []) 10))\<lparr>active := True, sent := True\<rparr>"
    using t by blast
  have other: "reactor_fire env_raise 1 10 ?w1 = (Inr (), ?w1, [])"
    using t [THEN conjunct2, THEN conjunct2, THEN conjunct2, THEN conjunct2, THEN conjunct1,
        THEN spec, of 1] by simp
  have fired: "reactor_fire env_raise 0 10 ?w1 =
     (Inl (Exn ValueError ''boom''),
      upd_handle 10 (\<lambda>x. x\<lparr>closed := True, active := False, sent := False\<rparr>) ?w1,
      [Partial 1 []])"
    using t [THEN conjunct2, THEN conjunct2, THEN conjunct2, THEN conjunct2, THEN conjunct2,
        THEN conjunct1] h
    by (simp add: env_raise_def new_handle_def upd_handle_def)
  show ?thesis using t [THEN conjunct1] h other fired l lt by (simp add: world1_fields)
qed

subsection \<open>Timers\<close>

lemma call_later_live:
  assumes "timers (hub_heap w hub) = Some S" and "loop (hub_heap w hub) = Some l"
      and "0 \<le> seconds"
  shows "fst (call_later hub seconds f w) = Inr (next_ref w)"
    and "timer_heap (snd (call_later hub seconds f w)) (next_ref w) =
           \<lparr>called = False, cb = Some f, timer = Some (Suc (next_ref w))\<rparr>"
    and "timers (hub_heap (snd (call_later hub seconds f w)) hub) = Some (insert (next_ref w) S)"
    and "handle_heap (snd (call_later hub seconds f w)) (Suc (next_ref w)) =
           (new_handle TimerHandle l (TimerCb (next_ref w)))
             \<lparr>active := True, timeout := seconds, starts := 1\<rparr>"
    and "tls (snd (call_later hub seconds f w)) = tls w"
  using assms
  by (simp_all add: call_later_def Timer_init_def Let_def handle_start_def new_handle_def)

lemma call_later_negative:
  assumes "timers (hub_heap w hub) = Some S" and "loop (hub_heap w hub) = Some l"
      and "seconds < 0"
  shows "fst (call_later hub seconds f w) =
           Inl (Exn ValueError ''a value of zero or higher is required'')"
    and "timers (hub_heap (snd (call_later hub seconds f w)) hub) = Some (insert (next_ref w) S)"
    and "\<not> active (handle_heap (snd (call_later hub seconds f w)) (Suc (next_ref w)))"
  using assms
  by (simp_all add: call_later_def Timer_init_def Let_def new_handle_def)

lemma world1_timer_fields:
  "timer_heap world1_timer 10 = \<lparr>called = False, cb = Some (Partial 1 []), timer = Some 11\<rparr>"
  "timers (hub_heap world1_timer 2) = Some {10}"
  "\<not> closed (handle_heap world1_timer 11)"
  "active (handle_heap world1_timer 11)"
  "tls world1_timer 0 = Some 2"
proof -
  have a: "timers (hub_heap world1 2) = Some {}" and b: "loop (hub_heap world1 2) = Some 4"
    by (simp_all add: world1_fields)
  have z: "(0::real) \<le> 0.01" by simp
  note c = call_later_live [OF a b z, where f = "Partial 1 []", folded world1_timer_def,
      unfolded world1_fields]
  show "timer_heap world1_timer 10 = \<lparr>called = False, cb = Some (Partial 1 []), timer = Some 11\<rparr>"
    using c(2) by simp
  show "timers (hub_heap world1_timer 2) = Some {10}" using c(3) by simp
  show "\<not> closed (handle_heap world1_timer 11)" using c(4) by (simp add: new_handle_def)
  show "active (handle_heap world1_timer 11)" using c(4) by (simp add: new_handle_def)
  show "tls world1_timer 0 = Some 2" using c(5) by simp
qed

lemma timer_cleanup_registered:
  assumes "tls w th = Some hub" and "timers (hub_heap w hub) = Some S" and "t \<in> S"
      and "timer (timer_heap w t) = Some a" and "\<not> closed (handle_heap w a)"
  shows "timer_cleanup th t w =
           (Inr (),
            upd_hub hub (\<lambda>x. x\<lparr>timers := Some (S - {t})\<rparr>)
              (upd_timer t (\<lambda>x. x\<lparr>timer := None\<rparr>)
                 (upd_handle a (\<lambda>x. x\<lparr>closed := True, active := False\<rparr>)
                    (upd_timer t (\<lambda>x. x\<lparr>cb := None\<rparr>) w))))"
  using assms
  by (simp add: timer_cleanup_def handle_close_def get_hub_def timers_remove_def Let_def)

lemma timer_cb_called:
  "called (timer_heap w t) \<Longrightarrow> timer_cb env th t w = (Inr (), w, [])"
  by (simp add: timer_cb_def)

lemma cancel_called:
  "called (timer_heap w t) \<Longrightarrow> cancel th t w = (Inr (), w)"
  by (simp add: cancel_def)

text \<open>
  C2. A timer whose flag \<open>called\<close> is not yet set and whose callback is \<open>f\<close> is
  fired by the reactor in thread \<open>th\<close>, and \<open>f\<close>, returning or raising, leaves the
  Hub bound to that thread, the timer in the Hub's set, the timer's handle open and the flag
  set. Then \<open>_timer_cb\<close> calls \<open>f\<close> exactly once; afterwards the timer is marked as
  called, its callback and its handle are released, the handle is closed, and the
  timer is removed from the Hub's set; the outcome of \<open>_timer_cb\<close> is the outcome of
  \<open>f\<close>, so an error of \<open>f\<close> is raised after the cleanup. Firing the timer again
  calls nothing and changes nothing.
\<close>

theorem timer_fires_once:
  assumes "\<not> called (timer_heap w t)"
      and "cb (timer_heap w t) = Some f"
      and "env th f (upd_timer t (\<lambda>x. x\<lparr>called := True\<rparr>) w) = (r, v)"
      and "called (timer_heap v t)"
      and "tls v th = Some hub"
      and "timers (hub_heap v hub) = Some S"
      and "t \<in> S"
      and "timer (timer_heap v t) = Some a"
      and "\<not> closed (handle_heap v a)"
  shows "\<exists>w3. timer_cb env th t w = (r, w3, [f]) \<and>
           called (timer_heap w3 t) \<and>
           cb (timer_heap w3 t) = None \<and>
           timer (timer_heap w3 t) = None \<and>
           closed (handle_heap w3 a) \<and>
           timers (hub_heap w3 hub) = Some (S - {t}) \<and>
           timer_cb env th t w3 = (Inr (), w3, [])"
proof -
  let ?w3 = "upd_hub hub (\<lambda>x. x\<lparr>timers := Some (S - {t})\<rparr>)
              (upd_timer t (\<lambda>x. x\<lparr>timer := None\<rparr>)
                 (upd_handle a (\<lambda>x. x\<lparr>closed := True, active := False\<rparr>)
                    (upd_timer t (\<lambda>x. x\<lparr>cb := None\<rparr>) v)))"
  have c: "timer_cleanup th t v = (Inr (), ?w3)"
    using assms(5-9) by (rule timer_cleanup_registered)
  have run: "timer_cb env th t w = (r, ?w3, [f])"
    using assms(1-3) c by (simp add: timer_cb_def Let_def)
  have called3: "called (timer_heap ?w3 t)" using assms(4) by simp
  have again: "timer_cb env th t ?w3 = (Inr (), ?w3, [])"
    using called3 by (rule timer_cb_called)
  have "cb (timer_heap ?w3 t) = None" "timer (timer_heap ?w3 t) = None"
    "closed (handle_heap ?w3 a)" "timers (hub_heap ?w3 hub) = Some (S - {t})"
    by simp_all
  then show ?thesis using run called3 again by blast
qed

theorem timer_fires_once_witness:
  "\<not> called (timer_heap world1_timer 10) \<and>
   timers (hub_heap world1_timer 2) = Some {10} \<and>
   fst (timer_cb env_raise 0 10 world1_timer) = Inl (Exn ValueError ''boom'') \<and>
   snd (snd (timer_cb env_raise 0 10 world1_timer)) = [Partial 1 []] \<and>
   called (timer_heap (fst (snd (timer_cb env_raise 0 10 world1_timer))) 10) \<and>
   closed (handle_heap (fst (snd (timer_cb env_raise 0 10 world1_timer))) 11) \<and>
   timers (hub_heap (fst (snd (timer_cb env_raise 0 10 world1_timer))) 2) = Some {}"
proof -
  let ?w1 = "upd_timer 10 (\<lambda>x. x\<lparr>called := True\<rparr>) world1_timer"
  have e: "env_raise 0 (Partial 1 []) ?w1 = (Inl (Exn ValueError ''boom''), ?w1)"
    by (simp add: env_raise_def)
  have "\<exists>w3. timer_cb env_raise 0 10 world1_timer =
            (Inl (Exn ValueError ''boom''), w3, [Partial 1 []]) \<and>
           called (timer_heap w3 10) \<and>
           cb (timer_heap w3 10) = None \<and>
           timer (timer_heap w3 10) = None \<and>
           closed (handle_heap w3 11) \<and>
           timers (hub_heap w3 2) = Some ({10} - {10}) \<and>
           timer_cb env_raise 0 10 w3 = (Inr (), w3, [])"
    using e
    by (intro timer_fires_once [where env = env_raise and w = world1_timer and t = 10
          and f = "Partial 1 []" and th = 0 and hub = 2 and S = "{10}" and a = 11
          and v = "upd_timer 10 (\<lambda>x. x\<lparr>called := True\<rparr>) world1_timer"])
       (simp_all add: world1_timer_fields)
  then show ?thesis by (auto simp: world1_timer_fields)
qed

lemma called_timers_remove:
  "called (timer_heap (snd (timers_remove hub t v)) u) = called (timer_heap v u)"
  by (simp add: timers_remove_def split: option.splits)

lemma called_handle_close:
  "called (timer_heap (snd (handle_close a v)) u) = called (timer_heap v u)"
  by (simp add: handle_close_def)

lemma called_timer_cleanup:
  "called (timer_heap (snd (timer_cleanup th t v)) t) = called (timer_heap v t)"
  by (auto simp: timer_cleanup_def handle_close_def get_hub_def timers_remove_def Let_def
      split: option.splits prod.splits sum.splits)

lemma cancel_sets_called: "called (timer_heap (snd (cancel th t w)) t)"
  by (auto simp: cancel_def handle_close_def get_hub_def timers_remove_def Let_def
      split: option.splits prod.splits sum.splits)

lemma timer_cb_sets_called:
  assumes "\<forall>g v. called (timer_heap v t) \<longrightarrow> called (timer_heap (snd (env th g v)) t)"
  shows "called (timer_heap (fst (snd (timer_cb env th t w))) t)"
proof (cases "called (timer_heap w t)")
  case True
  then show ?thesis by (simp add: timer_cb_called)
next
  case False
  let ?w1 = "upd_timer t (\<lambda>x. x\<lparr>called := True\<rparr>) w"
  have c1: "called (timer_heap ?w1 t)" by simp
  show ?thesis
  proof (cases "cb (timer_heap w t)")
    case None
    have "fst (snd (timer_cb env th t w)) = snd (timer_cleanup th t ?w1)"
      using False None by (simp add: timer_cb_def Let_def split: prod.splits sum.splits)
    then show ?thesis using c1 by (simp add: called_timer_cleanup)
  next
    case (Some f)
    have "fst (snd (timer_cb env th t w)) = snd (timer_cleanup th t (snd (env th f ?w1)))"
      using False Some by (simp add: timer_cb_def Let_def split: prod.splits sum.splits)
    moreover have "called (timer_heap (snd (env th f ?w1)) t)" using assms c1 by blast
    ultimately show ?thesis by (simp add: called_timer_cleanup)
  qed
qed

lemma timer_cb_invokes:
  assumes "\<not> called (timer_heap w t)" and "cb (timer_heap w t) = Some f"
  shows "snd (snd (timer_cb env th t w)) = [f]"
  using assms by (simp add: timer_cb_def Let_def split: prod.splits sum.splits)

lemma timer_events_called:
  "called (timer_heap w t) \<Longrightarrow> timer_events env th t evs w = (w, [])"
proof (induction evs)
  case Nil
  then show ?case by simp
next
  case (Cons ev evs)
  then show ?case by (cases ev) (simp_all add: timer_cb_called cancel_called)
qed

lemma cancel_registered:
  assumes "\<not> called (timer_heap w t)"
      and "tls w th = Some hub" and "timers (hub_heap w hub) = Some S" and "t \<in> S"
      and "timer (timer_heap w t) = Some a" and "\<not> closed (handle_heap w a)"
  shows "cancel th t w =
           (Inr (),
            upd_hub hub (\<lambda>x. x\<lparr>timers := Some (S - {t})\<rparr>)
              (upd_timer t (\<lambda>x. x\<lparr>timer := None\<rparr>)
                 (upd_handle a (\<lambda>x. x\<lparr>closed := True, active := False\<rparr>)
                    (upd_timer t (\<lambda>x. x\<lparr>called := True\<rparr>) w))))"
  using assms
  by (simp add: cancel_def handle_close_def get_hub_def timers_remove_def Let_def)

lemma timer_cb_registered:
  assumes "\<not> called (timer_heap w t)"
      and "cb (timer_heap w t) = Some f"
      and "env th f (upd_timer t (\<lambda>x. x\<lparr>called := True\<rparr>) w) = (r, v)"
      and "tls v th = Some hub"
      and "timers (hub_heap v hub) = Some S"
      and "t \<in> S"
      and "timer (timer_heap v t) = Some a"
      and "\<not> closed (handle_heap v a)"
  shows "timer_cb env th t w =
           (r,
            upd_hub hub (\<lambda>x. x\<lparr>timers := Some (S - {t})\<rparr>)
              (upd_timer t (\<lambda>x. x\<lparr>timer := None\<rparr>)
                 (upd_handle a (\<lambda>x. x\<lparr>closed := True, active := False\<rparr>)
                    (upd_timer t (\<lambda>x. x\<lparr>cb := None\<rparr>) v))),
            [f])"
  using assms(1-3) timer_cleanup_registered [OF assms(4-8)]
  by (simp add: timer_cb_def Let_def)

text \<open>
  C3. \<open>cancel()\<close> on a timer already fired or canceled returns without error and
  leaves the state as it was. On a pending timer that is in the set of the Hub bound
  to the calling thread and whose handle is open, it returns after it has marked the
  timer as called, closed and released the handle, and removed the timer from the
  set. A pending timer on which the fire callback and \<open>cancel()\<close> are called, in any
  order and any number of times, ends in one of two ways, decided by the first call.
  \<^item> The fire callback comes first: the callback \<open>f\<close> of the timer is run once, and
    with \<open>v\<close> the state \<open>f\<close> left (the Hub still bound, the timer registered, its
    handle open, its flag set), the final state is \<open>v\<close> with the callback and the
    handle released, the handle closed and the timer removed from the set; the later
    calls change nothing and run nothing.
  \<^item> \<open>cancel()\<close> comes first: no callback is run, and the final state is the one
    \<open>cancel()\<close> left, which no user code has touched; the later calls change nothing.
  Also without those conditions on the state, as long as user code never clears the
  flag \<open>called\<close>, the timer ends marked as called and its callback was called
  exactly once if the fire callback came first and never otherwise.
\<close>

theorem timer_fired_xor_canceled:
  "(called (timer_heap w t) \<longrightarrow> cancel th t w = (Inr (), w)) \<and>
   (\<not> called (timer_heap w t) \<and> tls w th = Some hub \<and> timers (hub_heap w hub) = Some S \<and>
    t \<in> S \<and> timer (timer_heap w t) = Some a \<and> \<not> closed (handle_heap w a) \<longrightarrow>
      (\<exists>v. cancel th t w = (Inr (), v) \<and> called (timer_heap v t) \<and>
            closed (handle_heap v a) \<and> timer (timer_heap v t) = None \<and>
            timers (hub_heap v hub) = Some (S - {t}))) \<and>
   (\<not> called (timer_heap w t) \<and> cb (timer_heap w t) = Some f \<and>
    env th f (upd_timer t (\<lambda>x. x\<lparr>called := True\<rparr>) w) = (r, v) \<and>
    called (timer_heap v t) \<and> tls v th = Some hub \<and> timers (hub_heap v hub) = Some S \<and>
    t \<in> S \<and> timer (timer_heap v t) = Some a \<and> \<not> closed (handle_heap v a) \<longrightarrow>
      timer_events env th t (Fire # evs) w =
        (upd_hub hub (\<lambda>x. x\<lparr>timers := Some (S - {t})\<rparr>)
           (upd_timer t (\<lambda>x. x\<lparr>timer := None\<rparr>)
              (upd_handle a (\<lambda>x. x\<lparr>closed := True, active := False\<rparr>)
                 (upd_timer t (\<lambda>x. x\<lparr>cb := None\<rparr>) v))),
         [f])) \<and>
   (\<not> called (timer_heap w t) \<and> tls w th = Some hub \<and> timers (hub_heap w hub) = Some S \<and>
    t \<in> S \<and> timer (timer_heap w t) = Some a \<and> \<not> closed (handle_heap w a) \<longrightarrow>
      timer_events env th t (Cancel # evs) w =
        (upd_hub hub (\<lambda>x. x\<lparr>timers := Some (S - {t})\<rparr>)
           (upd_timer t (\<lambda>x. x\<lparr>timer := None\<rparr>)
              (upd_handle a (\<lambda>x. x\<lparr>closed := True, active := False\<rparr>)
                 (upd_timer t (\<lambda>x. x\<lparr>called := True\<rparr>) w))),
         [])) \<and>
   (\<not> called (timer_heap w t) \<and> cb (timer_heap w t) = Some f \<and> evs \<noteq> [] \<and>
    (\<forall>g u. called (timer_heap u t) \<longrightarrow> called (timer_heap (snd (env th g u)) t)) \<longrightarrow>
      called (timer_heap (fst (timer_events env th t evs w)) t) \<and>
      snd (timer_events env th t evs w) = (if hd evs = Fire then [f] else []))"
proof (intro conjI impI)
  assume "called (timer_heap w t)"
  then show "cancel th t w = (Inr (), w)" by (rule cancel_called)
next
  assume a: "\<not> called (timer_heap w t) \<and> tls w th = Some hub \<and>
    timers (hub_heap w hub) = Some S \<and> t \<in> S \<and> timer (timer_heap w t) = Some a \<and>
    \<not> closed (handle_heap w a)"
  let ?v = "upd_hub hub (\<lambda>x. x\<lparr>timers := Some (S - {t})\<rparr>)
              (upd_timer t (\<lambda>x. x\<lparr>timer := None\<rparr>)
                 (upd_handle a (\<lambda>x. x\<lparr>closed := True, active := False\<rparr>)
                    (upd_timer t (\<lambda>x. x\<lparr>called := True\<rparr>) w)))"
  have "cancel th t w = (Inr (), ?v)" using a by (intro cancel_registered) simp_all
  moreover have "called (timer_heap ?v t)" "closed (handle_heap ?v a)"
    "timer (timer_heap ?v t) = None" "timers (hub_heap ?v hub) = Some (S - {t})"
    by simp_all
  ultimately show "\<exists>v. cancel th t w = (Inr (), v) \<and> called (timer_heap v t) \<and>
            closed (handle_heap v a) \<and> timer (timer_heap v t) = None \<and>
            timers (hub_heap v hub) = Some (S - {t})" by blast
next
  assume a: "\<not> called (timer_heap w t) \<and> cb (timer_heap w t) = Some f \<and>
    env th f (upd_timer t (\<lambda>x. x\<lparr>called := True\<rparr>) w) = (r, v) \<and>
    called (timer_heap v t) \<and> tls v th = Some hub \<and> timers (hub_heap v hub) = Some S \<and>
    t \<in> S \<and> timer (timer_heap v t) = Some a \<and> \<not> closed (handle_heap v a)"
  let ?end = "upd_hub hub (\<lambda>x. x\<lparr>timers := Some (S - {t})\<rparr>)
           (upd_timer t (\<lambda>x. x\<lparr>timer := None\<rparr>)
              (upd_handle a (\<lambda>x. x\<lparr>closed := True, active := False\<rparr>)
                 (upd_timer t (\<lambda>x. x\<lparr>cb := None\<rparr>) v)))"
  have fire: "timer_cb env th t w = (r, ?end, [f])"
    using a by (intro timer_cb_registered) simp_all
  have "called (timer_heap ?end t)" using a by simp
  then have "timer_events env th t evs ?end = (?end, [])" by (rule timer_events_called)
  then show "timer_events env th t (Fire # evs) w = (?end, [f])" using fire by simp
next
  assume a: "\<not> called (timer_heap w t) \<and> tls w th = Some hub \<and>
    timers (hub_heap w hub) = Some S \<and> t \<in> S \<and> timer (timer_heap w t) = Some a \<and>
    \<not> closed (handle_heap w a)"
  let ?end = "upd_hub hub (\<lambda>x. x\<lparr>timers := Some (S - {t})\<rparr>)
              (upd_timer t (\<lambda>x. x\<lparr>timer := None\<rparr>)
                 (upd_handle a (\<lambda>x. x\<lparr>closed := True, active := False\<rparr>)
                    (upd_timer t (\<lambda>x. x\<lparr>called := True\<rparr>) w)))"
  have c: "cancel th t w = (Inr (), ?end)" using a by (intro cancel_registered) simp_all
  have "called (timer_heap ?end t)" by simp
  then have "timer_events env th t evs ?end = (?end, [])" by (rule timer_events_called)
  then show "timer_events env th t (Cancel # evs) w = (?end, [])" using c by simp
next
  assume a: "\<not> called (timer_heap w t) \<and> cb (timer_heap w t) = Some f \<and> evs \<noteq> [] \<and>
    (\<forall>g u. called (timer_heap u t) \<longrightarrow> called (timer_heap (snd (env th g u)) t))"
  then have mono: "\<forall>g u. called (timer_heap u t) \<longrightarrow> called (timer_heap (snd (env th g u)) t)"
    by blast
  obtain ev rest where evs: "evs = ev # rest" using a by (cases evs) auto
  have both: "called (timer_heap (fst (timer_events env th t evs w)) t) \<and>
      snd (timer_events env th t evs w) = (if hd evs = Fire then [f] else [])"
  proof (cases ev)
    case Fire
    let ?v = "fst (snd (timer_cb env th t w))"
    have c: "called (timer_heap ?v t)" using mono by (rule timer_cb_sets_called)
    have i: "snd (snd (timer_cb env th t w)) = [f]" using a by (intro timer_cb_invokes) simp_all
    have r: "timer_events env th t rest ?v = (?v, [])" using c by (rule timer_events_called)
    show ?thesis using Fire evs c i r by (auto split: prod.splits)
  next
    case Cancel
    let ?v = "snd (cancel th t w)"
    have c: "called (timer_heap ?v t)" by (rule cancel_sets_called)
    have r: "timer_events env th t rest ?v = (?v, [])" using c by (rule timer_events_called)
    show ?thesis using Cancel evs c r by (auto split: prod.splits)
  qed
  show "called (timer_heap (fst (timer_events env th t evs w)) t)" using both by blast
  show "snd (timer_events env th t evs w) = (if hd evs = Fire then [f] else [])"
    using both by blast
qed

theorem timer_fired_xor_canceled_witness:
  "\<not> called (timer_heap world1_timer 10) \<and>
   cancel 0 10 world1_timer = (Inr (), world1_canceled) \<and>
   called (timer_heap world1_canceled 10) \<and>
   closed (handle_heap world1_canceled 11) \<and>
   timers (hub_heap world1_canceled 2) = Some {} \<and>
   cancel 0 10 world1_canceled = (Inr (), world1_canceled) \<and>
   timer_events env_raise 0 10 [Cancel, Fire] world1_timer = (world1_canceled, []) \<and>
   timer_events env_cancel 0 10 [Fire, Cancel] world1_timer =
     (upd_hub 2 (\<lambda>x. x\<lparr>timers := Some {}\<rparr>)
        (upd_timer 10 (\<lambda>x. x\<lparr>timer := None\<rparr>)
           (upd_handle 11 (\<lambda>x. x\<lparr>closed := True, active := False\<rparr>)
              (upd_timer 10 (\<lambda>x. x\<lparr>cb := None\<rparr>)
                 (upd_timer 10 (\<lambda>x. x\<lparr>called := True\<rparr>) world1_timer)))),
      [Partial 1 []]) \<and>
   snd (timer_events env_raise 0 10 [Fire, Fire, Cancel] world1_timer) = [Partial 1 []]"
proof -
  let ?w1 = "upd_timer 10 (\<lambda>x. x\<lparr>called := True\<rparr>) world1_timer"
  have m1: "\<forall>g u. called (timer_heap u 10) \<longrightarrow> called (timer_heap (snd (env_raise 0 g u)) 10)"
    by (simp add: env_raise_def)
  have run: "env_cancel 0 (Partial 1 []) ?w1 = (Inr (), ?w1)"
    by (simp add: env_cancel_def cancel_called)
  note t1 = timer_fired_xor_canceled [where w = world1_timer and t = 10 and th = 0 and hub = 2
      and S = "{10}" and a = 11 and f = "Partial 1 []" and evs = "[Fire]"
      and env = env_raise]
  note t2 = timer_fired_xor_canceled [where w = world1_timer and t = 10 and th = 0 and hub = 2
      and S = "{10}" and a = 11 and f = "Partial 1 []" and evs = "[Cancel]"
      and env = env_cancel and r = "Inr ()" and v = ?w1]
  note t3 = timer_fired_xor_canceled [where w = world1_timer and t = 10 and th = 0
      and f = "Partial 1 []" and evs = "[Fire, Fire, Cancel]" and env = env_raise]
  have c: "\<exists>v. cancel 0 10 world1_timer = (Inr (), v) \<and> called (timer_heap v 10) \<and>
            closed (handle_heap v 11) \<and> timer (timer_heap v 10) = None \<and>
            timers (hub_heap v 2) = Some ({10} - {10})"
    using t1 [THEN conjunct2, THEN conjunct1] by (simp add: world1_timer_fields)
  then have c': "cancel 0 10 world1_timer = (Inr (), world1_canceled)"
    "called (timer_heap world1_canceled 10)"
    "closed (handle_heap world1_canceled 11)" "timers (hub_heap world1_canceled 2) = Some {}"
    by (auto simp: world1_canceled_def)
  have again: "cancel 0 10 world1_canceled = (Inr (), world1_canceled)"
    using timer_fired_xor_canceled [where w = world1_canceled and t = 10 and th = 0,
        THEN conjunct1] c'(2) by blast
  have e1: "timer_events env_raise 0 10 [Cancel, Fire] world1_timer = (world1_canceled, [])"
    using t1 [THEN conjunct2, THEN conjunct2, THEN conjunct2, THEN conjunct1]
      cancel_registered [where w = world1_timer and t = 10 and th = 0 and hub = 2
        and S = "{10}" and a = 11] c'(1)
    by (simp add: world1_timer_fields)
  have e2: "timer_events env_cancel 0 10 [Fire, Cancel] world1_timer =
     (upd_hub 2 (\<lambda>x. x\<lparr>timers := Some {}\<rparr>)
        (upd_timer 10 (\<lambda>x. x\<lparr>timer := None\<rparr>)
           (upd_handle 11 (\<lambda>x. x\<lparr>closed := True, active := False\<rparr>)
              (upd_timer 10 (\<lambda>x. x\<lparr>cb := None\<rparr>) ?w1))),
      [Partial 1 []])"
    using t2 [THEN conjunct2, THEN conjunct2, THEN conjunct1] run
    by (simp add: world1_timer_fields)
  have e3: "snd (timer_events env_raise 0 10 [Fire, Fire, Cancel] world1_timer) = [Partial 1 []]"
    using t3 [THEN conjunct2, THEN conjunct2, THEN conjunct2, THEN conjunct2] m1
    by (simp add: world1_timer_fields)
  show ?thesis using c' again e1 e2 e3 by (simp add: world1_timer_fields)
qed

subsection \<open>Switching to the Hub\<close>

lemma parent_rel_step:
  assumes "(c, n) \<in> (parent_rel fh)\<^sup>*" and "n \<noteq> c"
  shows "\<exists>p. parent (fh n) = Some p \<and> (c, p) \<in> (parent_rel fh)\<^sup>*"
  using assms by (cases rule: rtrancl.cases) (auto simp: parent_rel_def)

lemma chain_contains_wf:
  assumes "wf (parent_rel fh)"
  shows "chain_contains fh (Some n) c = Some ((c, n) \<in> (parent_rel fh)\<^sup>*)"
  using assms
proof (induction n rule: wf_induct_rule)
  case (less n)
  show ?case
  proof (cases "n = c")
    case True
    then show ?thesis by (subst chain_contains.simps) simp
  next
    case False
    show ?thesis
    proof (cases "parent (fh n)")
      case None
      have "(c, n) \<notin> (parent_rel fh)\<^sup>*"
        using parent_rel_step [of c n fh] False None by auto
      moreover have "chain_contains fh (Some n) c = Some False"
        using False None
        by (subst chain_contains.simps, simp, subst chain_contains.simps, simp)
      ultimately show ?thesis by simp
    next
      case (Some p)
      have edge: "(p, n) \<in> parent_rel fh" using Some by (simp add: parent_rel_def)
      have ih: "chain_contains fh (Some p) c = Some ((c, p) \<in> (parent_rel fh)\<^sup>*)"
        using less.IH [OF edge] .
      have eq: "((c, n) \<in> (parent_rel fh)\<^sup>*) = ((c, p) \<in> (parent_rel fh)\<^sup>*)"
      proof
        assume "(c, n) \<in> (parent_rel fh)\<^sup>*"
        then show "(c, p) \<in> (parent_rel fh)\<^sup>*"
          using parent_rel_step [of c n fh] False Some by auto
      next
        assume "(c, p) \<in> (parent_rel fh)\<^sup>*"
        then show "(c, n) \<in> (parent_rel fh)\<^sup>*" using edge by (rule rtrancl_into_rtrancl)
      qed
      have "chain_contains fh (Some n) c = chain_contains fh (Some p) c"
        using False Some by (subst chain_contains.simps) simp
      then show ?thesis using ih eq by simp
    qed
  qed
qed

lemma parent_rel_upd:
  "parent_rel (fh(c := (fh c)\<lparr>parent := Some n\<rparr>)) =
     insert (n, c) {(p, x). x \<noteq> c \<and> parent (fh x) = Some p}"
  by (auto simp: parent_rel_def split: if_splits)

lemma creates_cycle_only_if:
  assumes "wf (parent_rel fh)" and "creates_cycle fh c n"
  shows "(c, n) \<in> (parent_rel fh)\<^sup>*"
proof (rule ccontr)
  let ?r = "parent_rel fh"
  let ?r' = "parent_rel (fh(c := (fh c)\<lparr>parent := Some n\<rparr>))"
  assume no: "(c, n) \<notin> ?r\<^sup>*"
  obtain x where x: "(x, x) \<in> ?r'\<^sup>+" using assms(2) unfolding creates_cycle_def by blast
  have sub: "?r' \<subseteq> insert (n, c) ?r"
    unfolding parent_rel_upd by (auto simp: parent_rel_def)
  have xx: "(x, x) \<in> (insert (n, c) ?r)\<^sup>+" using trancl_mono [OF x sub] .
  have "wf (insert (n, c) ?r)" using assms(1) no by (simp only: wf_insert simp_thms)
  then have "acyclic (insert (n, c) ?r)" by (rule wf_acyclic)
  then show False using xx unfolding acyclic_def by blast
qed

lemma creates_cycle_if:
  assumes "wf (parent_rel fh)" and cn: "(c, n) \<in> (parent_rel fh)\<^sup>*"
  shows "creates_cycle fh c n"
proof -
  let ?r = "parent_rel fh"
  let ?r' = "parent_rel (fh(c := (fh c)\<lparr>parent := Some n\<rparr>))"
  have acyc: "acyclic ?r" using assms(1) by (rule wf_acyclic)
  have "(c, m) \<in> ?r'\<^sup>*" if "(c, m) \<in> ?r\<^sup>*" for m
    using that
  proof (induction rule: rtrancl_induct)
    case base
    show ?case by (rule rtrancl.rtrancl_refl)
  next
    case (step y z)
    have "z \<noteq> c"
    proof
      assume "z = c"
      then have "(y, c) \<in> ?r" using step.hyps(2) by simp
      with step.hyps(1) have "(c, c) \<in> ?r\<^sup>+" by (rule rtrancl_into_trancl1)
      then show False using acyc unfolding acyclic_def by blast
    qed
    then have "(y, z) \<in> ?r'"
      using step.hyps(2) unfolding parent_rel_upd by (simp add: parent_rel_def)
    with step.IH show ?case by (rule rtrancl_into_rtrancl)
  qed
  then have "(c, n) \<in> ?r'\<^sup>*" using cn by blast
  moreover have "(n, c) \<in> ?r'" unfolding parent_rel_upd by simp
  ultimately have "(c, c) \<in> ?r'\<^sup>+" by (rule rtrancl_into_trancl1)
  then show ?thesis unfolding creates_cycle_def by blast
qed

lemma creates_cycle_iff:
  assumes "wf (parent_rel fh)"
  shows "creates_cycle fh c n = ((c, n) \<in> (parent_rel fh)\<^sup>*)"
  using creates_cycle_if [OF assms] creates_cycle_only_if [OF assms] by blast

lemma set_parent_wf:
  assumes "wf (parent_rel (fiber_heap v))"
  shows "set_parent c n v =
           Some (if creates_cycle (fiber_heap v) c n
                 then (Inl (Exn ValueError ''cyclic parent chain''), v)
                 else (Inr (), upd_fiber c (\<lambda>x. x\<lparr>parent := Some n\<rparr>) v))"
  unfolding set_parent_def chain_contains_wf [OF assms] creates_cycle_iff [OF assms]
  by simp

lemma wf_parent_rel_measure:
  assumes "\<And>c p. parent (fh c) = Some p \<Longrightarrow> f p < (f c :: nat)"
  shows "wf (parent_rel fh)"
proof (rule wf_subset [OF wf_measure])
  show "parent_rel fh \<subseteq> measure f" using assms by (auto simp: parent_rel_def)
qed

text \<open>
  C6. In \<open>switch()\<close> the \<open>switch_out\<close> hook of the calling fiber, if it has one,
  runs first; let it return in state \<open>v\<close>, in which every chain of parents is
  finite. Then \<open>switch()\<close> does not raise: the parent of the calling fiber becomes the
  Hub's greenlet unless that link would create a cycle, in which case every parent
  link stays as it was; and the Hub's greenlet becomes the running fiber. The walk
  along the parents made by the assignment ends (the result is not \<open>None\<close>).
\<close>

theorem switch_sets_parent:
  assumes "(case switch_out_hook (fiber_heap w (current w th)) of
              None \<Rightarrow> (Inr (), w)
            | Some f \<Rightarrow> env th f w) = (Inr (), v)"
      and "wf (parent_rel (fiber_heap v))"
  shows "switch env th self w =
           Some (Inr (),
                 greenlet_switch th (greenlet (hub_heap v self))
                   (if creates_cycle (fiber_heap v) (current w th) (greenlet (hub_heap v self))
                    then v
                    else upd_fiber (current w th)
                           (\<lambda>x. x\<lparr>parent := Some (greenlet (hub_heap v self))\<rparr>) v))"
proof (cases "parent (fiber_heap v (greenlet (hub_heap v self))) = Some (current w th)")
  case True
  then have "(current w th, greenlet (hub_heap v self)) \<in> parent_rel (fiber_heap v)"
    by (simp add: parent_rel_def)
  then have "creates_cycle (fiber_heap v) (current w th) (greenlet (hub_heap v self))"
    using creates_cycle_iff [OF assms(2)] by blast
  then show ?thesis using assms(1) True by (simp add: switch_def Let_def)
next
  case False
  show ?thesis
    using assms(1) False set_parent_wf [OF assms(2)]
    by (simp add: switch_def Let_def issubclass_simps)
qed

lemma fiber_heap_world1:
  "fiber_heap world1 =
     (\<lambda>r. \<lparr>parent = None, switch_out_hook = None, dead = False\<rparr>)
       (3 := \<lparr>parent = Some 0, switch_out_hook = None, dead = False\<rparr>)"
  by (simp add: world1_def Hub_init_def world0_def Let_def)

theorem switch_sets_parent_witness:
  "switch env_raise 0 2 world1_task =
     Some (Inr (),
           world1_task\<lparr>current := (current world1_task)(0 := 3),
             fiber_heap := (fiber_heap world1_task)
               (20 := \<lparr>parent = Some 3, switch_out_hook = Some (Partial 2 []), dead = False\<rparr>)\<rparr>) \<and>
   switch env_raise 0 2 world1_nested =
     Some (Inr (), world1_nested\<lparr>current := (current world1_nested)(0 := 3)\<rparr>)"
proof -
  have wf1: "wf (parent_rel (fiber_heap world1_task))"
    by (rule wf_parent_rel_measure [where f = "\<lambda>x. x"])
       (auto simp: world1_task_def fiber_heap_world1 split: if_splits)
  have wf2: "wf (parent_rel (fiber_heap world1_nested))"
    by (rule wf_parent_rel_measure [where f = "\<lambda>x. if x = 3 then 2 else if x = 20 then 1 else 0"])
       (auto simp: world1_nested_def fiber_heap_world1 split: if_splits)
  have no: "\<not> creates_cycle (fiber_heap world1_task) 20 3"
  proof
    assume "creates_cycle (fiber_heap world1_task) 20 3"
    then have a: "(20, 3) \<in> (parent_rel (fiber_heap world1_task))\<^sup>*"
      using creates_cycle_iff [OF wf1] by blast
    have "(20, 0) \<in> (parent_rel (fiber_heap world1_task))\<^sup>*"
      using parent_rel_step [OF a] by (simp add: world1_task_def fiber_heap_world1)
    then show False
      using parent_rel_step [of 20 0 "fiber_heap world1_task"]
      by (simp add: world1_task_def fiber_heap_world1)
  qed
  have yes: "creates_cycle (fiber_heap world1_nested) 0 3"
  proof -
    have "(0, 20) \<in> parent_rel (fiber_heap world1_nested)"
      "(20, 3) \<in> parent_rel (fiber_heap world1_nested)"
      by (simp_all add: parent_rel_def world1_nested_def fiber_heap_world1)
    then have "(0, 3) \<in> (parent_rel (fiber_heap world1_nested))\<^sup>*" by auto
    then show ?thesis using creates_cycle_iff [OF wf2] by blast
  qed
  have h1: "(case switch_out_hook (fiber_heap world1_task (current world1_task 0)) of
              None \<Rightarrow> (Inr (), world1_task)
            | Some f \<Rightarrow> env_raise 0 f world1_task) = (Inr (), world1_task)"
    by (simp add: world1_task_def world1_fields env_raise_def)
  have h2: "(case switch_out_hook (fiber_heap world1_nested (current world1_nested 0)) of
              None \<Rightarrow> (Inr (), world1_nested)
            | Some f \<Rightarrow> env_raise 0 f world1_nested) = (Inr (), world1_nested)"
    by (simp add: world1_nested_def world1_fields fiber_heap_world1)
  have c1: "current world1_task 0 = 20" "greenlet (hub_heap world1_task 2) = 3"
    "fiber_heap world1_task 20 =
       \<lparr>parent = Some 0, switch_out_hook = Some (Partial 2 []), dead = False\<rparr>"
    by (simp_all add: world1_task_def world1_fields)
  have c2: "current world1_nested 0 = 0" "greenlet (hub_heap world1_nested 2) = 3"
    by (simp_all add: world1_nested_def world1_fields)
  have s1: "switch env_raise 0 2 world1_task =
     Some (Inr (), greenlet_switch 0 3 (upd_fiber 20 (\<lambda>x. x\<lparr>parent := Some 3\<rparr>) world1_task))"
    using switch_sets_parent [where env = env_raise and w = world1_task and th = 0
        and v = world1_task and self = 2, OF h1 wf1] no by (simp add: c1)
  have s2: "switch env_raise 0 2 world1_nested = Some (Inr (), greenlet_switch 0 3 world1_nested)"
    using switch_sets_parent [where env = env_raise and w = world1_nested and th = 0
        and v = world1_nested and self = 2, OF h2 wf2] yes by (simp add: c2)
  show ?thesis
    unfolding s1 s2 by (simp add: greenlet_switch_def upd_fiber_def c1)
qed

end
